theory Spec2Isabelle
  imports Main
begin

section \<open>The platform the library runs on\<close>

text \<open>
  The library (\<^verbatim>\<open>file.ts\<close>, \<^verbatim>\<open>download.ts\<close>, \<^verbatim>\<open>storage.ts\<close>) is written against
  Node.js: strings, \<^verbatim>\<open>node:path\<close>, \<^verbatim>\<open>node:fs\<close>, \<^verbatim>\<open>node:url\<close>, \<^verbatim>\<open>node:crypto\<close> and
  \<^verbatim>\<open>node:http(s)\<close>. This section models what the library uses of them. Strings are
  byte strings. A JavaScript value that may be \<^verbatim>\<open>undefined\<close> is an \<open>option\<close>.
\<close>

subsection \<open>Strings\<close>

definition truthy :: "string option \<Rightarrow> bool" where
  \<comment> \<open>JavaScript truthiness of \<^verbatim>\<open>string | undefined\<close>: the empty string is falsy.\<close>
  "truthy s = (case s of None \<Rightarrow> False | Some v \<Rightarrow> v \<noteq> [])"

definition startsWith :: "string \<Rightarrow> string \<Rightarrow> bool" where
  "startsWith s p = (take (length p) s = p)"

definition toLowerCase_char :: "char \<Rightarrow> char" where
  "toLowerCase_char c =
     (let n = (of_char c :: nat) in if 65 \<le> n \<and> n \<le> 90 then char_of (n + 32) else c)"

definition toLowerCase :: "string \<Rightarrow> string" where
  "toLowerCase s = map toLowerCase_char s"

fun lastIndexOf :: "string \<Rightarrow> char \<Rightarrow> int" where
  \<comment> \<open>\<^verbatim>\<open>s.lastIndexOf(c)\<close> for a one-character search string: \<open>-1\<close> when absent.\<close>
  "lastIndexOf [] c = - 1"
| "lastIndexOf (x # xs) c =
     (let r = lastIndexOf xs c in if 0 \<le> r then r + 1 else if x = c then 0 else - 1)"

definition slice :: "string \<Rightarrow> int \<Rightarrow> string" where
  \<comment> \<open>\<^verbatim>\<open>s.slice(start)\<close>: a negative start counts from the end, and both are clamped.\<close>
  "slice s start =
     (let n = int (length s);
          k = (if start < 0 then max 0 (n + start) else min start n)
      in drop (nat k) s)"

subsection \<open>Paths (\<^verbatim>\<open>node:path\<close>, POSIX)\<close>

fun split_on :: "char \<Rightarrow> string \<Rightarrow> string list" where
  "split_on c [] = [[]]"
| "split_on c (x # xs) =
     (if x = c then [] # split_on c xs
      else (case split_on c xs of [] \<Rightarrow> [[x]] | s # ss \<Rightarrow> (x # s) # ss))"

fun join_with :: "string \<Rightarrow> string list \<Rightarrow> string" where
  "join_with sep [] = []"
| "join_with sep [s] = s"
| "join_with sep (s # t # ss) = s @ sep @ join_with sep (t # ss)"

fun normalizeString :: "bool \<Rightarrow> string list \<Rightarrow> string list \<Rightarrow> string list" where
  \<comment> \<open>The segment stack \<open>res\<close> is kept topmost first.\<close>
  "normalizeString allowAboveRoot res [] = rev res"
| "normalizeString allowAboveRoot res (seg # segs) =
     (if seg = [] \<or> seg = ''.'' then normalizeString allowAboveRoot res segs
      else if seg = ''..'' then
        (case res of
           [] \<Rightarrow>
             if allowAboveRoot then normalizeString allowAboveRoot [''..''] segs
             else normalizeString allowAboveRoot [] segs
         | seg0 # below \<Rightarrow>
             if seg0 = ''..'' then
               (if allowAboveRoot then normalizeString allowAboveRoot (''..'' # res) segs
                else normalizeString allowAboveRoot res segs)
             else normalizeString allowAboveRoot below segs)
      else normalizeString allowAboveRoot (seg # res) segs)"

definition normalize :: "string \<Rightarrow> string" where
  "normalize p =
     (if p = [] then ''.''
      else
        let isAbsolute = (hd p = CHR ''/'');
            trailingSeparator = (last p = CHR ''/'');
            q = join_with ''/'' (normalizeString (\<not> isAbsolute) [] (split_on CHR ''/'' p))
        in if q = [] then (if isAbsolute then ''/'' else if trailingSeparator then ''./'' else ''.'')
           else (if isAbsolute then ''/'' else []) @ q @ (if trailingSeparator then ''/'' else []))"

definition join :: "string list \<Rightarrow> string" where
  \<comment> \<open>\<^verbatim>\<open>path.join(...args)\<close>: empty arguments are skipped, the rest normalised.\<close>
  "join args =
     (let joined = join_with ''/'' (filter (\<lambda>a. a \<noteq> []) args)
      in if joined = [] then ''.'' else normalize joined)"

definition basename :: "string \<Rightarrow> string" where
  \<comment> \<open>\<^verbatim>\<open>path.basename(p)\<close>: trailing separators are dropped, then the part after the last one.\<close>
  "basename p =
     rev (takeWhile (\<lambda>c. c \<noteq> CHR ''/'') (dropWhile (\<lambda>c. c = CHR ''/'') (rev p)))"

definition path_resolve :: "string \<Rightarrow> string \<Rightarrow> string" where
  \<comment> \<open>\<^verbatim>\<open>path.resolve(p)\<close> in a process whose working directory is \<open>cwd\<close> (absolute).\<close>
  "path_resolve cwd p =
     (let full = (if p = [] then cwd else if hd p = CHR ''/'' then p else cwd @ ''/'' @ p)
      in ''/'' @ join_with ''/'' (normalizeString False [] (split_on CHR ''/'' full)))"

subsection \<open>URLs, errors, the network\<close>

record URL =
  protocol :: string
  host :: string
  pathname :: string
  search :: string
  hash :: string

datatype error =
    InvalidInput  \<comment> \<open>\<^verbatim>\<open>Error("Either 'uri' or 'path' must be provided")\<close>\<close>
  | ResolutionFailed  \<comment> \<open>\<^verbatim>\<open>Error("Either 'uri' or 'path' must be provided and be valid")\<close>\<close>
  | TransferFailed string error  \<comment> \<open>\<^verbatim>\<open>Error(`Failed to download ${url}: ${err.message}`)\<close>\<close>
  | DownloadFailed string  \<comment> \<open>\<^verbatim>\<open>Error(`Failed to download ${url}`)\<close> of \<^verbatim>\<open>download\<close>\<close>
  | InvalidURL string  \<comment> \<open>the \<^verbatim>\<open>TypeError\<close> of \<^verbatim>\<open>new URL(url)\<close>\<close>
  | InvalidProtocol string  \<comment> \<open>\<^verbatim>\<open>http.get\<close> on a protocol other than \<^verbatim>\<open>http:\<close>\<close>
  | HttpStatus nat  \<comment> \<open>\<^verbatim>\<open>Error(`HTTP ${response.statusCode}`)\<close>\<close>
  | RequestFailed string  \<comment> \<open>the request's \<^verbatim>\<open>error\<close> event\<close>
  | StreamFailed string  \<comment> \<open>the write stream's \<^verbatim>\<open>error\<close> event\<close>
  | ENOENT string  \<comment> \<open>a file-system call on a path where nothing is\<close>
  | EISDIR string  \<comment> \<open>a file-system call for a regular file on a path that is a directory\<close>
  | ENOTDIR string  \<comment> \<open>a directory renamed onto a regular file\<close>

text \<open>
  What the server sends as a body, and how far the write stream gets with it: all of it
  (\<open>Finished\<close>), or the given bytes and then a stream error (\<open>Broken\<close>). A body
  that stops arriving without an error, which would leave the promise pending, is not
  among the outcomes.
\<close>

datatype transfer = Finished string | Broken string string

datatype response =
    RequestError string
  | Response "nat option" "string option" transfer
    \<comment> \<open>\<^verbatim>\<open>statusCode\<close>, \<^verbatim>\<open>headers.location\<close>, the body\<close>

text \<open>
  The environment of a run. The URL parser and the hash are the platform's
  (\<^verbatim>\<open>new URL\<close>, \<open>None\<close> where it throws; \<^verbatim>\<open>createHash("sha256")...digest("hex")\<close>)
  and are parameters of the model, as are the process's working directory, home directory
  and \<^verbatim>\<open>FILE_CACHE_DIR\<close> variable, the size \<^verbatim>\<open>statSync\<close> reports for a directory, and the
  answer of the network to a GET of each URL.
\<close>

record env =
  parseURL :: "string \<Rightarrow> URL option"
  sha256_hex :: "string \<Rightarrow> string"
  cwd :: string
  homedir :: string
  FILE_CACHE_DIR :: "string option"
  dirSize :: nat
  net :: "string \<Rightarrow> response"

definition resolve :: "env \<Rightarrow> string \<Rightarrow> string" where
  "resolve e p = path_resolve (cwd e) p"

subsection \<open>The file system and the log of requests\<close>

text \<open>
  What is at a path is a regular file with its bytes, or a directory. The file system
  maps absolute, normalised paths to what is there, and every call of \<^verbatim>\<open>node:fs\<close>
  resolves the path it is given against the working directory first, so that a relative
  and an absolute spelling of a path name the same entry.
  The directories the library asks for (its cache and output directories, and the parent
  of a download's destination) are taken to be in place, so that
  \<^verbatim>\<open>mkdirSync(dir, { recursive: true })\<close> succeeds and changes nothing; the parent of an
  entry need not be recorded. \<open>requests\<close> lists the URLs a GET was issued for, oldest first, and
  \<open>trace\<close> every state the file system went through, oldest first: what a process that
  stops at any moment leaves behind, and what a reader at any moment sees.
\<close>

datatype node = Regular string | Directory

type_synonym fs = "string \<rightharpoonup> node"

record world =
  files :: fs
  requests :: "string list"
  trace :: "fs list"

definition writeFs :: "fs \<Rightarrow> world \<Rightarrow> world" where
  "writeFs f w = w\<lparr>files := f, trace := trace w @ [f]\<rparr>"

definition existsSync :: "env \<Rightarrow> world \<Rightarrow> string \<Rightarrow> bool" where
  "existsSync e w p = (files w (resolve e p) \<noteq> None)"

definition mkdirSync :: "string \<Rightarrow> world \<Rightarrow> world" where
  "mkdirSync dir w = w"

definition statSync_size :: "env \<Rightarrow> world \<Rightarrow> string \<Rightarrow> error + nat" where
  "statSync_size e w p =
     (case files w (resolve e p) of
        None \<Rightarrow> Inl (ENOENT p)
      | Some (Regular b) \<Rightarrow> Inr (length b)
      | Some Directory \<Rightarrow> Inr (dirSize e))"

definition renameSync :: "env \<Rightarrow> string \<Rightarrow> string \<Rightarrow> world \<Rightarrow> error + world" where
  \<comment> \<open>The entry moves, replacing what is at the new path. (The library renames only the
      regular file it has just written; the entries below a directory are not followed.)\<close>
  "renameSync e old new w =
     (case files w (resolve e old) of
        None \<Rightarrow> Inl (ENOENT old)
      | Some (Regular b) \<Rightarrow>
          (case files w (resolve e new) of
             Some Directory \<Rightarrow> Inl (EISDIR new)
           | _ \<Rightarrow> Inr (writeFs (((files w)(resolve e old := None))(resolve e new \<mapsto> Regular b)) w))
      | Some Directory \<Rightarrow>
          (case files w (resolve e new) of
             Some (Regular c) \<Rightarrow> Inl (ENOTDIR new)
           | _ \<Rightarrow> Inr (writeFs (((files w)(resolve e old := None))(resolve e new \<mapsto> Directory)) w)))"

definition unlinkSync :: "env \<Rightarrow> string \<Rightarrow> world \<Rightarrow> error + world" where
  "unlinkSync e p w =
     (case files w (resolve e p) of
        None \<Rightarrow> Inl (ENOENT p)
      | Some Directory \<Rightarrow> Inl (EISDIR p)
      | Some (Regular b) \<Rightarrow> Inr (writeFs ((files w)(resolve e p := None)) w))"

definition copyFileSync :: "env \<Rightarrow> string \<Rightarrow> string \<Rightarrow> world \<Rightarrow> error + world" where
  "copyFileSync e src dest w =
     (case files w (resolve e src) of
        None \<Rightarrow> Inl (ENOENT src)
      | Some Directory \<Rightarrow> Inl (EISDIR src)
      | Some (Regular b) \<Rightarrow>
          (case files w (resolve e dest) of
             Some Directory \<Rightarrow> Inl (EISDIR dest)
           | _ \<Rightarrow> Inr (writeFs ((files w)(resolve e dest \<mapsto> Regular b)) w)))"

definition createWriteStream :: "env \<Rightarrow> string \<Rightarrow> world \<Rightarrow> error + world" where
  \<comment> \<open>Opening the stream creates the file, or truncates the one that is there; on a
      directory it fails, which the stream reports as its \<^verbatim>\<open>error\<close> event.\<close>
  "createWriteStream e dest w =
     (case files w (resolve e dest) of
        Some Directory \<Rightarrow> Inl (EISDIR dest)
      | _ \<Rightarrow> Inr (writeFs ((files w)(resolve e dest \<mapsto> Regular [])) w))"

fun pipe :: "string \<Rightarrow> string \<Rightarrow> string \<Rightarrow> world \<Rightarrow> world" where
  \<comment> \<open>The bytes reach the open file, the entry \<open>dest\<close>, one after the other; \<open>written\<close> is
      what is there already.\<close>
  "pipe dest written [] w = w"
| "pipe dest written (b # bs) w =
     pipe dest (written @ [b]) bs (writeFs ((files w)(dest \<mapsto> Regular (written @ [b]))) w)"

section \<open>storage.ts\<close>

definition StorageDir_DATA :: string where "StorageDir_DATA = ''/app/data''"
definition StorageDir_TEMP :: string where "StorageDir_TEMP = ''/app/tmp''"
definition StorageDir_CACHE :: string where "StorageDir_CACHE = ''/app/cache''"

section \<open>file.ts\<close>

record FileOptions =
  uri :: "string option"
  path :: "string option"
  contentType :: "string option"
  size_bytes :: "nat option"  \<comment> \<open>the field \<^verbatim>\<open>size\<close>\<close>
  filename :: "string option"

text \<open>
  The private constructor copies the five fields, so a \<^verbatim>\<open>File\<close> is its options. A
  descriptor handed to \<^verbatim>\<open>File.from\<close> is read as \<^verbatim>\<open>FileData & FileOptions\<close>: the five
  fields and the snake-case \<^verbatim>\<open>content_type\<close>.
\<close>

type_synonym File = FileOptions

record FileDataOptions = FileOptions +
  content_type :: "string option"

datatype input = Str string | Data FileDataOptions | Inst File


definition MIME_TYPES :: "(string \<times> string) list" where
  "MIME_TYPES = [
     (''.jpg'', ''image/jpeg''), (''.jpeg'', ''image/jpeg''), (''.png'', ''image/png''),
     (''.gif'', ''image/gif''), (''.webp'', ''image/webp''), (''.svg'', ''image/svg+xml''),
     (''.mp4'', ''video/mp4''), (''.webm'', ''video/webm''), (''.mov'', ''video/quicktime''),
     (''.mp3'', ''audio/mpeg''), (''.wav'', ''audio/wav''), (''.ogg'', ''audio/ogg''),
     (''.flac'', ''audio/flac''), (''.aac'', ''audio/aac''),
     (''.pdf'', ''application/pdf''), (''.json'', ''application/json''),
     (''.txt'', ''text/plain''), (''.csv'', ''text/csv''), (''.html'', ''text/html''),
     (''.zip'', ''application/zip''), (''.tar'', ''application/x-tar''),
     (''.gz'', ''application/gzip'')]"

definition guessContentType :: "string \<Rightarrow> string option" where
  "guessContentType filePath =
     (let ext = toLowerCase (slice filePath (lastIndexOf filePath CHR ''.''))
      in map_of MIME_TYPES ext)"

definition isUrl :: "string \<Rightarrow> bool" where
  "isUrl s = (startsWith s ''http://'' \<or> startsWith s ''https://'')"


definition File_getCacheDir :: "env \<Rightarrow> string" where
  "File_getCacheDir e =
     (if truthy (FILE_CACHE_DIR e) then the (FILE_CACHE_DIR e)
      else join [homedir e, ''.cache'', ''inferencesh'', ''files''])"

definition File_getCachePath :: "env \<Rightarrow> string \<Rightarrow> error + string" where
  "File_getCachePath e url =
     (case parseURL e url of
        None \<Rightarrow> Inl (InvalidURL url)
      | Some parsed \<Rightarrow>
          let components = host parsed @ pathname parsed;
              components = (if search parsed \<noteq> [] then components @ search parsed else components);
              hash = take 12 (sha256_hex e components);
              fname = (if basename (pathname parsed) \<noteq> [] then basename (pathname parsed)
                       else ''download'');
              hashDir = join [File_getCacheDir e, hash]
          in Inr (join [hashDir, fname]))"

definition File_populateMetadata :: "env \<Rightarrow> world \<Rightarrow> File \<Rightarrow> File" where
  "File_populateMetadata e w this =
     (if \<not> truthy (path this) \<or> \<not> existsSync e w (the (path this)) then this
      else
        let this1 = (if \<not> truthy (contentType this)
                     then this\<lparr>contentType := guessContentType (the (path this))\<rparr> else this);
            this2 = (if size_bytes this1 = None
                     then (case statSync_size e w (the (path this1)) of
                             Inl err \<Rightarrow> this1
                           | Inr n \<Rightarrow> this1\<lparr>size_bytes := Some n\<rparr>)
                     else this1)
        in if \<not> truthy (filename this2)
           then this2\<lparr>filename := Some (basename (the (path this2)))\<rparr> else this2)"



text \<open>
  \<^verbatim>\<open>downloadToFile\<close> settles its promise or, on a chain of redirects that never ends,
  does not: \<open>None\<close> is the promise that stays pending.
\<close>

partial_function (option) downloadToFile ::
  "env \<Rightarrow> string \<Rightarrow> string \<Rightarrow> world \<Rightarrow> ((error + unit) \<times> world) option" where
  "downloadToFile e url destPath w =
     (case parseURL e url of
        None \<Rightarrow> Some (Inl (InvalidURL url), w)
      | Some parsed \<Rightarrow>
          if protocol parsed = ''https:'' \<or> protocol parsed = ''http:'' then
            (case net e url of
               RequestError msg \<Rightarrow>
                 Some (Inl (RequestFailed msg), w\<lparr>requests := requests w @ [url]\<rparr>)
             | Response statusCode location body \<Rightarrow>
                 if (case statusCode of None \<Rightarrow> False | Some c \<Rightarrow> c \<noteq> 0 \<and> 300 \<le> c \<and> c < 400)
                    \<and> truthy location
                 then downloadToFile e (the location) destPath (w\<lparr>requests := requests w @ [url]\<rparr>)
                 else if (case statusCode of None \<Rightarrow> False | Some c \<Rightarrow> c \<noteq> 0 \<and> 400 \<le> c)
                 then Some (Inl (HttpStatus (the statusCode)), w\<lparr>requests := requests w @ [url]\<rparr>)
                 else
                   (let w1 = mkdirSync (join [destPath, ''..''])
                               (w\<lparr>requests := requests w @ [url]\<rparr>)
                    in case createWriteStream e destPath w1 of
                         Inl err \<Rightarrow> Some (Inl err, w1)
                       | Inr w2 \<Rightarrow>
                           (case body of
                              Finished b \<Rightarrow> Some (Inr (), pipe (resolve e destPath) [] b w2)
                            | Broken b msg \<Rightarrow>
                                Some (Inl (StreamFailed msg), pipe (resolve e destPath) [] b w2))))
          else Some (Inl (InvalidProtocol (protocol parsed)), w))"

declare downloadToFile.simps [code]

definition cleanup ::
  "env \<Rightarrow> string \<Rightarrow> string \<Rightarrow> error \<Rightarrow> world \<Rightarrow> (error + File) \<times> world" where
  \<comment> \<open>The \<^verbatim>\<open>catch\<close> block of \<^verbatim>\<open>_downloadUrl\<close>: the error of \<^verbatim>\<open>unlinkSync\<close> is ignored.\<close>
  "cleanup e url tmpPath err w =
     (Inl (TransferFailed url err),
      (case unlinkSync e tmpPath w of Inl ignored \<Rightarrow> w | Inr w' \<Rightarrow> w'))"

definition File_downloadUrl ::
  "env \<Rightarrow> string \<Rightarrow> File \<Rightarrow> world \<Rightarrow> ((error + File) \<times> world) option" where
  \<comment> \<open>\<^verbatim>\<open>_downloadUrl\<close>; the \<^verbatim>\<open>mkdirSync\<close> calls of \<^verbatim>\<open>_getCachePath\<close> change no file.\<close>
  "File_downloadUrl e url this w =
     (case File_getCachePath e url of
        Inl err \<Rightarrow> Some (Inl err, w)
      | Inr cachePath \<Rightarrow>
          if existsSync e w cachePath then Some (Inr (this\<lparr>path := Some cachePath\<rparr>), w)
          else
            (case downloadToFile e url (cachePath @ ''.tmp'') w of
               None \<Rightarrow> None
             | Some (Inl err, w1) \<Rightarrow> Some (cleanup e url (cachePath @ ''.tmp'') err w1)
             | Some (Inr u, w1) \<Rightarrow>
                 (case renameSync e (cachePath @ ''.tmp'') cachePath w1 of
                    Inl err \<Rightarrow> Some (cleanup e url (cachePath @ ''.tmp'') err w1)
                  | Inr w2 \<Rightarrow> Some (Inr (this\<lparr>path := Some cachePath\<rparr>), w2))))"

definition to_options :: "input \<Rightarrow> FileOptions" where
  \<comment> \<open>Lines 114 to 127 of \<^verbatim>\<open>File.from\<close>: a string is a \<^verbatim>\<open>uri\<close>; of a descriptor,
      \<^verbatim>\<open>data.content_type ?? data.contentType\<close>. (An instance never gets here.)\<close>
  "to_options inp =
     (case inp of
        Str s \<Rightarrow>
          \<lparr>uri = Some s, path = None, contentType = None, size_bytes = None, filename = None\<rparr>
      | Data d \<Rightarrow>
          \<lparr>uri = uri d, path = path d,
           contentType = (case content_type d of Some c \<Rightarrow> Some c | None \<Rightarrow> contentType d),
           size_bytes = size_bytes d, filename = filename d\<rparr>
      | Inst f \<Rightarrow> f)"

definition File_from :: "env \<Rightarrow> input \<Rightarrow> world \<Rightarrow> ((error + File) \<times> world) option" where
  "File_from e inp w =
     (case inp of
        Inst f \<Rightarrow>
          Some (Inr \<lparr>uri = uri f, path = path f, contentType = contentType f,
                     size_bytes = size_bytes f, filename = filename f\<rparr>, w)
      | _ \<Rightarrow>
          let options = to_options inp in
          if \<not> truthy (uri options) \<and> \<not> truthy (path options) then Some (Inl InvalidInput, w)
          else
            (case (if truthy (uri options) then
                     (if isUrl (the (uri options))
                      then File_downloadUrl e (the (uri options)) options w
                      else Some (Inr (options\<lparr>path := Some (resolve e (the (uri options)))\<rparr>), w))
                   else Some (Inr options, w)) of
               None \<Rightarrow> None
             | Some (Inl err, w1) \<Rightarrow> Some (Inl err, w1)
             | Some (Inr file, w1) \<Rightarrow>
                 if truthy (path file)
                 then Some (Inr (File_populateMetadata e w1
                                   (file\<lparr>path := Some (resolve e (the (path file)))\<rparr>)), w1)
                 else Some (Inl ResolutionFailed, w1)))"

section \<open>download.ts\<close>

definition download :: "env \<Rightarrow> string \<Rightarrow> string \<Rightarrow> world \<Rightarrow> ((error + string) \<times> world) option" where
  "download e url directory w =
     (case parseURL e url of
        None \<Rightarrow> Some (Inl (InvalidURL url), mkdirSync directory w)
      | Some parsed \<Rightarrow>
          let components = host parsed @ pathname parsed;
              components = (if search parsed \<noteq> [] then components @ search parsed else components);
              hash = take 12 (sha256_hex e components);
              filename = (if basename (pathname parsed) \<noteq> [] then basename (pathname parsed)
                          else ''download'');
              hashDir = join [directory, hash];
              outputPath = join [hashDir, filename];
              w0 = mkdirSync hashDir (mkdirSync directory w)
          in if existsSync e w0 outputPath \<and> directory \<noteq> StorageDir_TEMP
             then Some (Inr outputPath, w0)
             else
               (case File_from e (Str url) w0 of
                  None \<Rightarrow> None
                | Some (Inl err, w1) \<Rightarrow> Some (Inl err, w1)
                | Some (Inr file, w1) \<Rightarrow>
                    if truthy (path file) then
                      (case copyFileSync e (the (path file)) outputPath w1 of
                         Inl err \<Rightarrow> Some (Inl err, w1)
                       | Inr w2 \<Rightarrow> Some (Inr outputPath, w2))
                    else Some (Inl (DownloadFailed url), w1)))"

section \<open>An environment to run the model in\<close>

text \<open>
  A parser for URLs already in the form the platform's parser prints them in:
  \<^verbatim>\<open>scheme://host[:port][/path][?query][#fragment]\<close> with a lower-case scheme and host, no
  credentials, no default port, no dot segments and nothing to escape. On those it
  returns the fields the platform's \<^verbatim>\<open>URL\<close> object has.
\<close>

definition plain_URL :: "string \<Rightarrow> URL option" where
  "plain_URL s =
     (let scheme = takeWhile (\<lambda>c. c \<noteq> CHR '':'') s;
          rest = drop (length scheme) s;
          r = drop 3 rest;
          auth = takeWhile (\<lambda>c. c \<noteq> CHR ''/'' \<and> c \<noteq> CHR ''?'' \<and> c \<noteq> CHR ''#'') r;
          r1 = drop (length auth) r;
          p = takeWhile (\<lambda>c. c \<noteq> CHR ''?'' \<and> c \<noteq> CHR ''#'') r1;
          r2 = drop (length p) r1;
          q = takeWhile (\<lambda>c. c \<noteq> CHR ''#'') r2;
          f = drop (length q) r2
      in if scheme = [] \<or> take 3 rest \<noteq> ''://'' \<or> auth = [] then None
         else Some \<lparr>protocol = scheme @ '':'', host = auth,
                    pathname = (if p = [] then ''/'' else p),
                    search = (if q = ''?'' then [] else q),
                    hash = (if f = ''#'' then [] else f)\<rparr>)"

text \<open>
  The SHA-256 digests, in hex, of the strings the examples below hash (the digest of the
  empty string stands for every other).
\<close>

definition digests :: "(string \<times> string) list" where
  "digests = [
     (''example.com/dir/model.bin?v=2'',
      ''06ef81cb31ac793a6dd0361e0e14d9f55eeeea832fcc85f0184be8a0ae72d059''),
     (''example.com/a.png'',
      ''bfb062b2088bc88baccc09c31237e135ed8d78275711598634a50b7e285499b7'')]"

definition digest_of :: "string \<Rightarrow> string" where
  "digest_of s =
     (case map_of digests s of
        Some d \<Rightarrow> d
      | None \<Rightarrow> ''e3b0c44298fc1c149afbf4c8996fb92427ae41e4649b934ca495991b7852b855'')"

definition offline :: "string \<Rightarrow> response" where
  \<comment> \<open>A network on which every request fails.\<close>
  "offline u = RequestError ''offline''"

definition serving :: "string \<Rightarrow> string \<Rightarrow> response" where
  \<comment> \<open>A network that answers every request with status 200 and the given body.\<close>
  "serving body u = Response (Some 200) None (Finished body)"

definition refusing :: "string \<Rightarrow> response" where
  \<comment> \<open>A network that answers every request with status 404.\<close>
  "refusing u = Response (Some 404) None (Finished [])"

definition breaking :: "string \<Rightarrow> string \<Rightarrow> string \<Rightarrow> response" where
  \<comment> \<open>A network whose every answer breaks off: the stream gets the given bytes, then fails.\<close>
  "breaking got msg u = Response (Some 200) None (Broken got msg)"

definition node :: "(string \<Rightarrow> response) \<Rightarrow> env" where
  "node n = \<lparr>parseURL = plain_URL, sha256_hex = digest_of, cwd = ''/app'',
             homedir = ''/home/app'', FILE_CACHE_DIR = None, dirSize = 4096, net = n\<rparr>"


definition disk :: "(string \<times> string) list \<Rightarrow> world" where
  \<comment> \<open>A file system with the given regular files, and nothing done yet.\<close>
  "disk fl = \<lparr>files = map_of (map (\<lambda>(p, b). (p, Regular b)) fl), requests = [], trace = []\<rparr>"

section \<open>The specification's notions\<close>

definition extension :: "string \<Rightarrow> string" where
  \<comment> \<open>"The file's extension", including the leading separator: what follows the last
      \<^verbatim>\<open>.\<close> of the path, with it; nothing for a path without one.\<close>
  "extension p =
     (if CHR ''.'' \<in> set p then CHR ''.'' # rev (takeWhile (\<lambda>c. c \<noteq> CHR ''.'') (rev p)) else [])"

text \<open>
  The cache key of a parsed locator (the hash of host, path and query, cut to 12
  characters) and the file name of its cache entry (the final path segment, or the
  fallback name).
\<close>

definition cacheKey :: "env \<Rightarrow> URL \<Rightarrow> string" where
  "cacheKey e u = take 12 (sha256_hex e (host u @ pathname u @ search u))"

definition cacheFilename :: "URL \<Rightarrow> string" where
  "cacheFilename u = (if basename (pathname u) = [] then ''download'' else basename (pathname u))"

text \<open>
  The path the download utility computes for a parsed locator under a directory, and
  whether an input of \<^verbatim>\<open>File.from\<close> is an existing instance.
\<close>

definition download_target :: "env \<Rightarrow> URL \<Rightarrow> string \<Rightarrow> string" where
  "download_target e u directory = join [join [directory, cacheKey e u], cacheFilename u]"

definition is_instance :: "input \<Rightarrow> bool" where
  "is_instance inp = (case inp of Inst f \<Rightarrow> True | _ \<Rightarrow> False)"

text \<open>
  \<open>redirect_target e url\<close> is the location a GET of \<open>url\<close> is redirected to, when
  \<^verbatim>\<open>downloadToFile\<close> follows one. One fetch of a locator, \<open>fetches e url rs b\<close>: the
  network answers the locator, after the redirects a fetch follows, with a response that
  is no error and whose body \<open>b\<close> arrives whole; \<open>rs\<close> are the GET requests this takes,
  in order.
\<close>

definition redirect_target :: "env \<Rightarrow> string \<Rightarrow> string option" where
  "redirect_target e url =
     (case parseURL e url of
        None \<Rightarrow> None
      | Some parsed \<Rightarrow>
          if protocol parsed = ''https:'' \<or> protocol parsed = ''http:'' then
            (case net e url of
               RequestError msg \<Rightarrow> None
             | Response statusCode location body \<Rightarrow>
                 if (case statusCode of None \<Rightarrow> False | Some c \<Rightarrow> c \<noteq> 0 \<and> 300 \<le> c \<and> c < 400)
                    \<and> truthy location
                 then location else None)
          else None)"

inductive fetches :: "env \<Rightarrow> string \<Rightarrow> string list \<Rightarrow> string \<Rightarrow> bool" where
  direct:
    "parseURL e url = Some parsed \<Longrightarrow>
     protocol parsed = ''https:'' \<or> protocol parsed = ''http:'' \<Longrightarrow>
     net e url = Response statusCode location (Finished b) \<Longrightarrow>
     redirect_target e url = None \<Longrightarrow>
     (case statusCode of None \<Rightarrow> True | Some c \<Rightarrow> c < 400) \<Longrightarrow>
     fetches e url [url] b"
| redirect:
    "redirect_target e url = Some location \<Longrightarrow> fetches e location rs b \<Longrightarrow>
     fetches e url (url # rs) b"

section \<open>Notions used in the proofs\<close>

text \<open>
  \<open>wrote_only P w w'\<close>: from \<open>w\<close> to \<open>w'\<close> the file system went through states that
  differ from the one of \<open>w\<close> on the entries in \<open>P\<close> at most. A path segment is \<open>clean\<close>
  when resolving keeps it, and \<open>segments\<close> are the segments resolving leaves of a path.
\<close>

definition wrote_only :: "string set \<Rightarrow> world \<Rightarrow> world \<Rightarrow> bool" where
  "wrote_only P w w' =
     ((\<exists>ts. trace w' = trace w @ ts \<and> (\<forall>f \<in> set ts. \<forall>p. p \<notin> P \<longrightarrow> f p = files w p))
      \<and> (\<forall>p. p \<notin> P \<longrightarrow> files w' p = files w p))"

definition clean :: "string \<Rightarrow> bool" where
  "clean s = (s \<noteq> [] \<and> s \<noteq> ''.'' \<and> s \<noteq> ''..'' \<and> CHR ''/'' \<notin> set s)"

definition segments :: "string \<Rightarrow> string list" where
  "segments full = normalizeString False [] (split_on CHR ''/'' full)"

section \<open>Properties\<close>

subsection \<open>Content-type inference\<close>

lemma lastIndexOf_absent: "c \<notin> set s \<Longrightarrow> lastIndexOf s c = - 1"
  by (induction s) (auto simp: Let_def)

lemma lastIndexOf_bound: "lastIndexOf s c < int (length s)"
  by (induction s) (auto simp: Let_def)

lemma lastIndexOf_present: "c \<in> set s \<Longrightarrow> 0 \<le> lastIndexOf s c"
  by (induction s) (auto simp: Let_def)

lemma takeWhile_until_last: "c \<notin> set ys \<Longrightarrow> takeWhile (\<lambda>x. x \<noteq> c) (ys @ [c]) = ys"
  by (induction ys) auto

lemma slice_lastIndexOf:
  "c \<in> set s \<Longrightarrow> slice s (lastIndexOf s c) = c # rev (takeWhile (\<lambda>x. x \<noteq> c) (rev s))"
proof (induction s)
  case Nil
  then show ?case by simp
next
  case (Cons x xs)
  show ?case
  proof (cases "c \<in> set xs")
    case True
    with Cons.IH have ih: "slice xs (lastIndexOf xs c) = c # rev (takeWhile (\<lambda>x. x \<noteq> c) (rev xs))"
      by simp
    from True have r: "0 \<le> lastIndexOf xs c" "lastIndexOf xs c < int (length xs)"
      by (simp_all add: lastIndexOf_present lastIndexOf_bound)
    have tw: "takeWhile (\<lambda>x. x \<noteq> c) (rev xs @ [x]) = takeWhile (\<lambda>x. x \<noteq> c) (rev xs)"
      using True by (simp add: takeWhile_append1)
    have "slice (x # xs) (lastIndexOf xs c + 1) = slice xs (lastIndexOf xs c)"
      using r by (simp add: slice_def Let_def nat_add_distrib min_def)
    with ih tw r show ?thesis by (simp add: Let_def)
  next
    case False
    with Cons.prems have xc: "x = c" by simp
    have tw: "takeWhile (\<lambda>x. x \<noteq> c) (rev xs @ [c]) = rev xs"
      using False by (simp add: takeWhile_until_last)
    show ?thesis
      using False xc tw by (simp add: lastIndexOf_absent Let_def slice_def)
  qed
qed

lemma toLowerCase_length: "length (toLowerCase s) = length s"
  by (simp add: toLowerCase_def)

lemma MIME_TYPES_keys: "(k, v) \<in> set MIME_TYPES \<Longrightarrow> 3 \<le> length k"
  unfolding MIME_TYPES_def by auto

lemma MIME_TYPES_short: "length s \<le> 1 \<Longrightarrow> map_of MIME_TYPES s = None"
proof (cases "map_of MIME_TYPES s")
  case None
  then show ?thesis .
next
  case (Some v)
  then have "(s, v) \<in> set MIME_TYPES" by (rule map_of_SomeD)
  then have "3 \<le> length s" by (rule MIME_TYPES_keys)
  moreover assume "length s \<le> 1"
  ultimately show ?thesis by simp
qed

text \<open>
  The code takes \<^verbatim>\<open>slice(lastIndexOf("."))\<close>, which for a path without a \<^verbatim>\<open>.\<close> is
  \<^verbatim>\<open>slice(-1)\<close>, the last character; no key of the table is that short, so the lookup
  is the one of the extension all the same.
\<close>

lemma guessContentType_extension:
  "guessContentType p = map_of MIME_TYPES (toLowerCase (extension p))"
proof (cases "CHR ''.'' \<in> set p")
  case True
  then show ?thesis
    by (simp add: guessContentType_def extension_def slice_lastIndexOf)
next
  case False
  have "length (slice p (- 1)) \<le> 1"
    by (simp add: slice_def Let_def)
  then have "map_of MIME_TYPES (toLowerCase (slice p (- 1))) = None"
    by (simp add: MIME_TYPES_short toLowerCase_length)
  moreover have "map_of MIME_TYPES (toLowerCase []) = None"
    by (simp add: MIME_TYPES_short toLowerCase_length)
  ultimately show ?thesis
    using False by (simp add: guessContentType_def extension_def lastIndexOf_absent)
qed

lemma extension_png: "extension (p @ ''.png'') = ''.png''"
  by (simp add: extension_def)

lemma lower_png: "toLowerCase ''.png'' = ''.png''"
  by (simp add: toLowerCase_def toLowerCase_char_def)

lemma mime_png: "map_of MIME_TYPES ''.png'' = Some ''image/png''"
  by (simp add: MIME_TYPES_def)

lemma populate_unset_contentType:
  "contentType this = None \<Longrightarrow> path this = Some filePath \<Longrightarrow>
   guessContentType filePath = None \<Longrightarrow> contentType (File_populateMetadata e w this) = None"
  by (simp add: File_populateMetadata_def Let_def split: sum.splits)

text \<open>
  C9. Content-type inference is a lookup of the path's extension, lowercased, in
  \<open>MIME_TYPES\<close>, and always returns (a type or nothing, never an error): a path ending in
  \<^verbatim>\<open>.png\<close> gives \<^verbatim>\<open>image/png\<close>, and where the lowercased extension has no entry the
  result is nothing and the metadata step leaves an unset content type unset.
\<close>

theorem guessContentType_lookup:
  "guessContentType filePath = map_of MIME_TYPES (toLowerCase (extension filePath))
   \<and> guessContentType (p @ ''.png'') = Some ''image/png''
   \<and> (map_of MIME_TYPES (toLowerCase (extension filePath)) = None \<longrightarrow>
        guessContentType filePath = None
        \<and> (\<forall>w this. contentType this = None \<and> path this = Some filePath \<longrightarrow>
              contentType (File_populateMetadata e w this) = None))"
proof -
  have a: "guessContentType filePath = map_of MIME_TYPES (toLowerCase (extension filePath))"
    by (rule guessContentType_extension)
  have b: "guessContentType (p @ ''.png'') = Some ''image/png''"
    by (simp add: guessContentType_extension extension_png lower_png mime_png)
  show ?thesis
    using a b by (auto intro: populate_unset_contentType)
qed

theorem guessContentType_lookup_witness:
  "guessContentType ''/tmp/result.png'' = Some ''image/png''
   \<and> guessContentType ''/data/notes.xyz'' = None
   \<and> contentType (File_populateMetadata (node offline) (disk [(''/data/notes.xyz'', ''abc'')])
        \<lparr>uri = None, path = Some ''/data/notes.xyz'', contentType = None,
         size_bytes = None, filename = None\<rparr>) = None"
proof -
  have h: "map_of MIME_TYPES (toLowerCase (extension ''/data/notes.xyz'')) = None"
    by (simp add: extension_def toLowerCase_def toLowerCase_char_def MIME_TYPES_def)
  show ?thesis
    using h guessContentType_lookup
      [where filePath = "''/data/notes.xyz''" and p = "''/tmp/result''" and e = "node offline"]
    by simp
qed

subsection \<open>Basic facts\<close>

lemma truthy_simps [simp]: "truthy None = False" "truthy (Some s) = (s \<noteq> [])"
  by (simp_all add: truthy_def)

lemma resolve_hello: "resolve (node n) ''/tmp/hello.txt'' = ''/tmp/hello.txt''"
  by code_simp

lemma basename_hello: "basename ''/tmp/hello.txt'' = ''hello.txt''"
  by code_simp

subsection \<open>Resolved paths\<close>

text \<open>
  A resolved path is absolute and resolving it again changes nothing; and the temporary
  sibling \<^verbatim>\<open>p + ".tmp"\<close> of a path never resolves to the entry the path itself resolves to.
\<close>

lemma split_on_nonempty [simp]: "split_on c p \<noteq> []"
  by (induction p) (auto split: list.splits)

lemma split_on_free: "s \<in> set (split_on c p) \<Longrightarrow> c \<notin> set s"
  by (induction p arbitrary: s) (auto split: list.splits if_splits)

lemma split_on_single: "c \<notin> set s \<Longrightarrow> split_on c s = [s]"
  by (induction s) auto

lemma split_on_append: "c \<notin> set s \<Longrightarrow> split_on c (s @ c # r) = s # split_on c r"
  by (induction s) auto

lemma split_on_snoc:
  "c \<notin> set z \<Longrightarrow> split_on c (y @ z) = butlast (split_on c y) @ [last (split_on c y) @ z]"
proof (induction y)
  case Nil
  then show ?case by (simp add: split_on_single)
next
  case (Cons x y)
  then show ?case by (auto split: list.splits simp: butlast_append)
qed

lemma split_join:
  "segs \<noteq> [] \<Longrightarrow> \<forall>s \<in> set segs. c \<notin> set s \<Longrightarrow> split_on c (join_with [c] segs) = segs"
proof (induction "[c]" segs rule: join_with.induct)
  case 1
  then show ?case by simp
next
  case (2 s)
  then show ?case by (simp add: split_on_single)
next
  case (3 s t ss)
  then show ?case by (simp add: split_on_append)
qed

lemma normalizeString_append:
  "normalizeString a res (xs @ ys) = normalizeString a (rev (normalizeString a res xs)) ys"
  by (induction xs arbitrary: res) (auto split: list.splits)

lemma normalizeString_clean_out:
  "\<forall>s \<in> set xs. CHR ''/'' \<notin> set s \<Longrightarrow> \<forall>s \<in> set res. clean s \<Longrightarrow>
   \<forall>s \<in> set (normalizeString False res xs). clean s"
proof (induction xs arbitrary: res)
  case Nil
  then show ?case by simp
next
  case (Cons x xs)
  from Cons.prems have xs: "\<forall>s \<in> set xs. CHR ''/'' \<notin> set s" by simp
  show ?case
  proof (cases "x = [] \<or> x = ''.''")
    case True
    with Cons.IH [OF xs Cons.prems(2)] show ?thesis by auto
  next
    case False
    show ?thesis
    proof (cases "x = ''..''")
      case True
      show ?thesis
      proof (cases res)
        case Nil
        with True Cons.IH [OF xs, of "[]"] show ?thesis by simp
      next
        case (Cons t below)
        with Cons.prems have "clean t" "\<forall>s \<in> set below. clean s" by auto
        then have "t \<noteq> ''..''" by (simp add: clean_def)
        with True Cons Cons.IH [OF xs \<open>\<forall>s \<in> set below. clean s\<close>]
        show ?thesis by simp
      qed
    next
      case nd: False
      with False Cons.prems have "\<forall>s \<in> set (x # res). clean s" by (auto simp: clean_def)
      with Cons.IH [OF xs this] False nd show ?thesis by simp
    qed
  qed
qed

lemma normalizeString_clean_in:
  "\<forall>s \<in> set xs. clean s \<Longrightarrow> normalizeString a res xs = rev res @ xs"
  by (induction xs arbitrary: res) (auto simp: clean_def)

lemma segments_clean: "\<forall>s \<in> set (segments full). clean s"
  unfolding segments_def
  by (rule normalizeString_clean_out) (auto dest: split_on_free)

lemma segments_of_joined:
  assumes "\<forall>s \<in> set segs. clean s"
  shows "segments (''/'' @ join_with ''/'' segs) = segs"
proof (cases "segs = []")
  case True
  then show ?thesis by (simp add: segments_def)
next
  case False
  from assms have "\<forall>s \<in> set segs. CHR ''/'' \<notin> set s" by (simp add: clean_def)
  from split_join [OF False this] have "split_on CHR ''/'' (join_with ''/'' segs) = segs" .
  then have "split_on CHR ''/'' (''/'' @ join_with ''/'' segs) = [] # segs" by simp
  with assms show ?thesis by (simp add: segments_def normalizeString_clean_in)
qed

lemma path_resolve_segments:
  "path_resolve base p =
     ''/'' @ join_with ''/''
       (segments (if p = [] then base else if hd p = CHR ''/'' then p else base @ ''/'' @ p))"
  by (simp add: path_resolve_def segments_def Let_def)

lemma path_resolve_absolute: "path_resolve base (''/'' @ q) = ''/'' @ join_with ''/'' (segments (''/'' @ q))"
  by (simp add: path_resolve_segments)

lemma path_resolve_idem: "path_resolve base (path_resolve base p) = path_resolve base p"
proof -
  obtain segs where r: "path_resolve base p = ''/'' @ join_with ''/'' segs" and c: "\<forall>s \<in> set segs. clean s"
    using path_resolve_segments segments_clean by blast
  show ?thesis
    unfolding r by (simp only: path_resolve_absolute segments_of_joined [OF c])
qed

lemma join_with_inj:
  assumes "\<forall>s \<in> set xs. clean s" "\<forall>s \<in> set ys. clean s"
    and "join_with ''/'' xs = join_with ''/'' ys"
  shows "xs = ys"
proof -
  have "segments (''/'' @ join_with ''/'' xs) = segments (''/'' @ join_with ''/'' ys)"
    using assms(3) by simp
  with segments_of_joined [OF assms(1)] segments_of_joined [OF assms(2)] show ?thesis by simp
qed

lemma segments_suffix:
  assumes z: "CHR ''/'' \<notin> set z" "z \<noteq> []"
    and cl: "\<And>s. CHR ''/'' \<notin> set s \<Longrightarrow> clean (s @ z)"
  shows "segments (y @ z) \<noteq> segments y"
proof -
  let ?sp = "split_on CHR ''/'' y"
  let ?st = "rev (normalizeString False [] (butlast ?sp))"
  have y: "?sp = butlast ?sp @ [last ?sp]" by simp
  have a: "segments (y @ z) = rev ?st @ [last ?sp @ z]"
    unfolding segments_def split_on_snoc [OF z(1)] normalizeString_append [of False "[]" "butlast ?sp"]
    using cl [of "last ?sp"] split_on_free [of "last ?sp" "CHR ''/''" y]
    by (simp add: clean_def)
  have b: "segments y = normalizeString False ?st [last ?sp]"
    unfolding segments_def
    by (subst y) (simp only: normalizeString_append)
  have "normalizeString False ?st [last ?sp] \<noteq> rev ?st @ [last ?sp @ z]"
    using z(2) by (cases ?st) (auto split: if_splits)
  with a b show ?thesis by simp
qed

lemma segments_slash: "segments (y @ ''/'') = segments y"
proof -
  have "split_on CHR ''/'' (y @ ''/'') = split_on CHR ''/'' y @ [[]]"
    by (induction y) (auto split: list.splits)
  then show ?thesis
    by (simp add: segments_def normalizeString_append)
qed

lemma path_resolve_tmp: "path_resolve base (p @ ''.tmp'') \<noteq> path_resolve base p"
proof -
  have z: "CHR ''/'' \<notin> set ''.tmp''" "''.tmp'' \<noteq> []" by simp_all
  have cl: "clean (s @ ''.tmp'')" if "CHR ''/'' \<notin> set s" for s
    using that by (cases s) (auto simp: clean_def)
  have d: "segments (y @ ''.tmp'') \<noteq> segments y" for y
    by (rule segments_suffix [OF z cl])
  have j: "''/'' @ join_with ''/'' (segments a) \<noteq> ''/'' @ join_with ''/'' (segments b)"
    if "segments a \<noteq> segments b" for a b
    using that join_with_inj [OF segments_clean segments_clean] by auto
  show ?thesis
  proof (cases "p = []")
    case True
    have "segments ((base @ ''/'') @ ''.tmp'') \<noteq> segments (base @ ''/'')" by (rule d)
    then have "segments (base @ ''/'' @ ''.tmp'') \<noteq> segments base"
      by (simp add: segments_slash [of base, simplified])
    from j [OF this] True show ?thesis
      by (simp add: path_resolve_segments)
  next
    case False
    show ?thesis
    proof (cases "hd p = CHR ''/''")
      case True
      from j [OF d [of p]] True False show ?thesis
        by (simp add: path_resolve_segments)
    next
      case rel: False
      have "segments ((base @ ''/'' @ p) @ ''.tmp'') \<noteq> segments (base @ ''/'' @ p)" by (rule d)
      from j [OF this] rel False show ?thesis
        by (simp add: path_resolve_segments)
    qed
  qed
qed

lemma resolve_nonempty [simp]: "resolve e p \<noteq> []"
  by (simp add: resolve_def path_resolve_def Let_def)

lemma resolve_absolute [simp]: "hd (resolve e p) = CHR ''/''"
  by (simp add: resolve_def path_resolve_def Let_def)

lemma resolve_idem [simp]: "resolve e (resolve e p) = resolve e p"
  by (simp add: resolve_def path_resolve_idem)

lemma resolve_tmp [simp]:
  "resolve e (p @ ''.tmp'') \<noteq> resolve e p" "resolve e p \<noteq> resolve e (p @ ''.tmp'')"
  using path_resolve_tmp [of "cwd e" p] by (auto simp: resolve_def)

subsection \<open>Serialization\<close>








subsection \<open>Resolving an input: \<^verbatim>\<open>File.from\<close>\<close>

text \<open>
  C7. An input that gives neither a locator nor a path (the empty string; a descriptor
  whose \<^verbatim>\<open>uri\<close> and \<^verbatim>\<open>path\<close> are both missing or empty, such as the empty descriptor)
  makes \<^verbatim>\<open>File.from\<close> fail with the invalid-input error, and the world it leaves is the
  world it found: no file was touched and no request made.
\<close>

theorem from_rejects_missing:
  "File_from e (Str []) w = Some (Inl InvalidInput, w)
   \<and> (\<not> truthy (uri d) \<and> \<not> truthy (path d) \<longrightarrow> File_from e (Data d) w = Some (Inl InvalidInput, w))"
  by (simp add: File_from_def to_options_def)

theorem from_rejects_missing_witness:
  "File_from (node (\<lambda>u. Response (Some 200) None (Finished ''x'')))
     (Data \<lparr>uri = None, path = None, contentType = None, size_bytes = None, filename = None,
            content_type = None\<rparr>) (disk [(''/tmp/hello.txt'', ''hello world'')])
   = Some (Inl InvalidInput, disk [(''/tmp/hello.txt'', ''hello world'')])"
  using from_rejects_missing [of "node (\<lambda>u. Response (Some 200) None (Finished ''x''))"
      "disk [(''/tmp/hello.txt'', ''hello world'')]"
      "\<lparr>uri = None, path = None, contentType = None, size_bytes = None, filename = None,
            content_type = None\<rparr>"]
  by simp

subsection \<open>The cache path\<close>

lemma getCachePath_parsed:
  "parseURL e url = Some u \<Longrightarrow>
   File_getCachePath e url = Inr (join [join [File_getCacheDir e, cacheKey e u], cacheFilename u])"
  by (simp add: File_getCachePath_def cacheKey_def cacheFilename_def Let_def)

lemma takeWhile_until: "x \<notin> set ys \<Longrightarrow> takeWhile (\<lambda>c. c \<noteq> x) (ys @ x # zs) = ys"
  by (induction ys) auto

lemma basename_last_segment:
  assumes ne: "seg \<noteq> []" and ns: "CHR ''/'' \<notin> set seg"
  shows "basename (d @ ''/'' @ seg) = seg"
proof -
  from ne obtain c cs where rs: "rev seg = c # cs" by (cases "rev seg") auto
  then have "c \<in> set seg" by (metis list.set_intros(1) set_rev)
  with ns have c: "c \<noteq> CHR ''/''" by auto
  have d: "dropWhile (\<lambda>c. c = CHR ''/'') (rev seg @ CHR ''/'' # rev d) = rev seg @ CHR ''/'' # rev d"
    using rs c by simp
  have t: "takeWhile (\<lambda>c. c \<noteq> CHR ''/'') (rev seg @ CHR ''/'' # rev d) = rev seg"
    using ns by (simp add: takeWhile_until)
  show ?thesis
    by (simp add: basename_def d t)
qed

lemma basename_no_segment:
  assumes "set p \<subseteq> {CHR ''/''}"
  shows "basename p = []"
proof -
  from assms have "\<forall>c \<in> set (rev p). c = CHR ''/''" by auto
  then have h: "dropWhile (\<lambda>c. c = CHR ''/'') (rev p) = []" by simp
  show ?thesis
    unfolding basename_def h by simp
qed

lemma model_basename: "basename ''/dir/model.bin'' = ''model.bin''"
  by code_simp

text \<open>
  C4. The cache path of a locator is \<^verbatim>\<open>join(join(cacheRoot, key), name)\<close>, where the key
  is the first 12 characters of the hex SHA-256 digest of host, path and query
  concatenated, and the name is the final path segment of the locator, or
  \<^verbatim>\<open>download\<close> when the path has no segment. The fragment is not read: two locators
  whose parsed forms differ only in the fragment have the same cache path. For
  \<^verbatim>\<open>https://example.com/dir/model.bin?v=2\<close>, whose host is \<^verbatim>\<open>example.com\<close>, path
  \<^verbatim>\<open>/dir/model.bin\<close> and query \<^verbatim>\<open>?v=2\<close>, the key is the first 12 characters of the
  digest of \<^verbatim>\<open>example.com/dir/model.bin?v=2\<close> and the name is \<^verbatim>\<open>model.bin\<close>.
\<close>

theorem cache_path_layout:
  "(parseURL e url = Some u \<longrightarrow>
      File_getCachePath e url =
        Inr (join [join [File_getCacheDir e, cacheKey e u], cacheFilename u]))
   \<and> cacheKey e u = take 12 (sha256_hex e (host u @ pathname u @ search u))
   \<and> (parseURL e url = Some u \<and> parseURL e url' = Some (u\<lparr>hash := fragment\<rparr>) \<longrightarrow>
        File_getCachePath e url' = File_getCachePath e url)
   \<and> (pathname u = d @ ''/'' @ seg \<and> seg \<noteq> [] \<and> CHR ''/'' \<notin> set seg \<longrightarrow> cacheFilename u = seg)
   \<and> (set (pathname u) \<subseteq> {CHR ''/''} \<longrightarrow> cacheFilename u = ''download'')
   \<and> (parseURL e url = Some u \<and> host u = ''example.com'' \<and> pathname u = ''/dir/model.bin''
        \<and> search u = ''?v=2'' \<longrightarrow>
        File_getCachePath e url =
          Inr (join [join [File_getCacheDir e,
                           take 12 (sha256_hex e ''example.com/dir/model.bin?v=2'')],
                     ''model.bin'']))"
proof -
  have model: "File_getCachePath e url =
          Inr (join [join [File_getCacheDir e,
                           take 12 (sha256_hex e ''example.com/dir/model.bin?v=2'')],
                     ''model.bin''])"
    if "parseURL e url = Some u" "host u = ''example.com''" "pathname u = ''/dir/model.bin''"
      "search u = ''?v=2''"
    using that by (simp add: getCachePath_parsed cacheKey_def cacheFilename_def model_basename)
  have frag: "File_getCachePath e url' = File_getCachePath e url"
    if "parseURL e url = Some u" "parseURL e url' = Some (u\<lparr>hash := fragment\<rparr>)"
    using that by (simp add: getCachePath_parsed cacheKey_def cacheFilename_def)
  have seg: "cacheFilename u = seg"
    if "pathname u = d @ ''/'' @ seg" "seg \<noteq> []" "CHR ''/'' \<notin> set seg"
    using that basename_last_segment [of seg d] by (simp add: cacheFilename_def)
  have fallback: "cacheFilename u = ''download''" if "set (pathname u) \<subseteq> {CHR ''/''}"
    using that by (simp add: cacheFilename_def basename_no_segment)
  show ?thesis
    using frag seg fallback model by (simp add: getCachePath_parsed cacheKey_def)
qed

lemma plain_URL_model: "plain_URL ''https://example.com/dir/model.bin?v=2'' =
    Some \<lparr>protocol = ''https:'', host = ''example.com'', pathname = ''/dir/model.bin'',
          search = ''?v=2'', hash = []\<rparr>"
  by code_simp

lemma plain_URL_model_fragment: "plain_URL ''https://example.com/dir/model.bin?v=2#part'' =
    Some \<lparr>protocol = ''https:'', host = ''example.com'', pathname = ''/dir/model.bin'',
          search = ''?v=2'', hash = ''#part''\<rparr>"
  by code_simp

lemma node_cacheDir: "File_getCacheDir (node n) = ''/home/app/.cache/inferencesh/files''"
  by code_simp

lemma model_cachePath:
  "join [join [''/home/app/.cache/inferencesh/files'', ''06ef81cb31ac''], ''model.bin''] =
     ''/home/app/.cache/inferencesh/files/06ef81cb31ac/model.bin''"
  by code_simp

lemma model_key: "take 12 (digest_of ''example.com/dir/model.bin?v=2'') = ''06ef81cb31ac''"
  by code_simp

theorem cache_path_layout_witness:
  "File_getCachePath (node offline) ''https://example.com/dir/model.bin?v=2'' =
     Inr ''/home/app/.cache/inferencesh/files/06ef81cb31ac/model.bin''
   \<and> File_getCachePath (node offline) ''https://example.com/dir/model.bin?v=2#part'' =
     Inr ''/home/app/.cache/inferencesh/files/06ef81cb31ac/model.bin''"
  using cache_path_layout [of "node offline" "''https://example.com/dir/model.bin?v=2''"
      "\<lparr>protocol = ''https:'', host = ''example.com'', pathname = ''/dir/model.bin'',
        search = ''?v=2'', hash = []\<rparr>"
      "''https://example.com/dir/model.bin?v=2#part''" "''#part''" "''/dir''" "''model.bin''"]
  by (simp add: node_def plain_URL_model plain_URL_model_fragment)
     (simp add: node_cacheDir [unfolded node_def] model_cachePath model_key
        cacheFilename_def cacheKey_def model_basename)

subsection \<open>The file system and the trace\<close>

lemma writeFs_simps [simp]:
  "files (writeFs f w) = f" "requests (writeFs f w) = requests w"
  "trace (writeFs f w) = trace w @ [f]"
  by (simp_all add: writeFs_def)

lemma mkdirSync_id [simp]: "mkdirSync dir w = w"
  by (simp add: mkdirSync_def)

lemma wrote_only_refl [simp]: "wrote_only P w w"
  by (simp add: wrote_only_def)

lemma wrote_only_requests [simp]: "wrote_only P w (w\<lparr>requests := rs\<rparr>)"
  by (simp add: wrote_only_def)

lemma wrote_only_trans:
  assumes "wrote_only P w w1" and "wrote_only P w1 w2"
  shows "wrote_only P w w2"
proof -
  from assms(1) obtain ts where ts: "trace w1 = trace w @ ts"
    "\<forall>f \<in> set ts. \<forall>p. p \<notin> P \<longrightarrow> f p = files w p" and f1: "\<forall>p. p \<notin> P \<longrightarrow> files w1 p = files w p"
    by (auto simp: wrote_only_def)
  from assms(2) obtain us where us: "trace w2 = trace w1 @ us"
    "\<forall>f \<in> set us. \<forall>p. p \<notin> P \<longrightarrow> f p = files w1 p" and f2: "\<forall>p. p \<notin> P \<longrightarrow> files w2 p = files w1 p"
    by (auto simp: wrote_only_def)
  have "trace w2 = trace w @ (ts @ us)" using ts(1) us(1) by simp
  moreover have "\<forall>f \<in> set (ts @ us). \<forall>p. p \<notin> P \<longrightarrow> f p = files w p"
    using ts(2) us(2) f1 by auto
  moreover have "\<forall>p. p \<notin> P \<longrightarrow> files w2 p = files w p" using f1 f2 by simp
  ultimately show ?thesis unfolding wrote_only_def by blast
qed

lemma wrote_only_writeFs:
  "\<forall>p. p \<notin> P \<longrightarrow> f p = files w p \<Longrightarrow> wrote_only P w (writeFs f w)"
  by (simp add: wrote_only_def)

lemma wrote_only_unfold:
  "wrote_only P w w' \<Longrightarrow>
   \<exists>ts. trace w' = trace w @ ts \<and> (\<forall>f \<in> set ts. \<forall>p. p \<notin> P \<longrightarrow> f p = files w p)"
  by (simp add: wrote_only_def)

lemma wrote_only_files: "wrote_only P w w' \<Longrightarrow> p \<notin> P \<Longrightarrow> files w' p = files w p"
  by (simp add: wrote_only_def)

lemma pipe_requests [simp]: "requests (pipe dest written bs w) = requests w"
  by (induction bs arbitrary: written w) simp_all

lemma pipe_files:
  "files (pipe dest written bs w) =
     (if bs = [] then files w else (files w)(dest \<mapsto> Regular (written @ bs)))"
  by (induction bs arbitrary: written w) auto

lemma pipe_frame: "wrote_only {dest} w (pipe dest written bs w)"
proof (induction bs arbitrary: written w)
  case Nil
  then show ?case by simp
next
  case (Cons b bs)
  have "wrote_only {dest} w (writeFs ((files w)(dest \<mapsto> Regular (written @ [b]))) w)"
    by (rule wrote_only_writeFs) simp
  from wrote_only_trans [OF this Cons.IH] show ?case by simp
qed

lemma createWriteStream_opens:
  "createWriteStream e dest w =
     (if files w (resolve e dest) = Some Directory then Inl (EISDIR dest)
      else Inr (writeFs ((files w)(resolve e dest \<mapsto> Regular [])) w))"
  by (simp add: createWriteStream_def split: option.splits node.splits)

lemma createWriteStream_frame:
  "createWriteStream e dest w = Inr w2 \<Longrightarrow> wrote_only {resolve e dest} w w2"
  by (auto simp: createWriteStream_opens intro: wrote_only_writeFs split: if_splits)

lemma stream_frame:
  assumes "createWriteStream e dest (w\<lparr>requests := rs\<rparr>) = Inr w2"
  shows "wrote_only {resolve e dest} w (pipe (resolve e dest) [] b w2)"
  by (rule wrote_only_trans [OF wrote_only_requests
        wrote_only_trans [OF createWriteStream_frame [OF assms] pipe_frame]])

lemma stream_files:
  "createWriteStream e dest w = Inr w2 \<Longrightarrow>
   files (pipe (resolve e dest) [] b w2) (resolve e dest) = Some (Regular b)"
  by (auto simp: pipe_files createWriteStream_opens split: if_splits)

lemma stream_directories:
  "createWriteStream e dest w = Inr w2 \<Longrightarrow>
   (files (pipe (resolve e dest) [] b w2) k = Some Directory) = (files w k = Some Directory)"
  by (auto simp: pipe_files createWriteStream_opens split: if_splits)

subsection \<open>\<^verbatim>\<open>downloadToFile\<close>\<close>

text \<open>
  Induction along the redirects that a call follows: a call either answers directly or
  continues as the call for the location, with the request logged.
\<close>

lemma downloadToFile_redirect:
  "redirect_target e url = Some loc \<Longrightarrow>
   downloadToFile e url dest w = downloadToFile e loc dest (w\<lparr>requests := requests w @ [url]\<rparr>)"
  by (subst downloadToFile.simps)
     (auto simp: redirect_target_def split: option.splits if_splits response.splits)

lemma downloadToFile_answers:
  "redirect_target e url = None \<Longrightarrow> \<exists>y. downloadToFile e url dest w = Some y"
  by (subst downloadToFile.simps)
     (auto simp: redirect_target_def Let_def
           split: option.splits if_splits response.splits transfer.splits sum.splits)

text \<open>
  So a call that never settles is an endless chain of redirects, each step of which adds
  to the request log and touches no file.
\<close>

lemma downloadToFile_induct [consumes 1, case_names direct redirect]:
  assumes major: "downloadToFile e url0 dest w0 = Some y"
    and direct: "\<And>url w. redirect_target e url = None \<Longrightarrow>
                   downloadToFile e url dest w = Some y \<Longrightarrow> P url w"
    and redirect: "\<And>url w loc. redirect_target e url = Some loc \<Longrightarrow>
                   downloadToFile e loc dest (w\<lparr>requests := requests w @ [url]\<rparr>) = Some y \<Longrightarrow>
                   P loc (w\<lparr>requests := requests w @ [url]\<rparr>) \<Longrightarrow> P url w"
  shows "P url0 w0"
proof -
  have "downloadToFile e url0 dest w0 = Some y \<and> (e = e \<and> dest = dest \<and> y = y \<longrightarrow> P url0 w0)"
  proof (rule downloadToFile.raw_induct
      [where P = "\<lambda>e' url dest' w y'. downloadToFile e' url dest' w = Some y'
                    \<and> (e' = e \<and> dest' = dest \<and> y' = y \<longrightarrow> P url w)", OF _ major], goal_cases)
    case (1 rec e' url dest' w y')
    show ?case
    proof (cases "redirect_target e' url")
      case None
      with 1(2) have eq: "downloadToFile e' url dest' w = Some y'"
        by (subst downloadToFile.simps)
           (auto simp: redirect_target_def split: option.splits if_splits response.splits)
      with None direct show ?thesis by blast
    next
      case (Some loc)
      with 1(2) have "rec e' loc dest' (w\<lparr>requests := requests w @ [url]\<rparr>) = Some y'"
        by (auto simp: redirect_target_def split: option.splits if_splits response.splits)
      from 1(1) [OF this]
      have ih: "downloadToFile e' loc dest' (w\<lparr>requests := requests w @ [url]\<rparr>) = Some y'"
        "e' = e \<and> dest' = dest \<and> y' = y \<longrightarrow> P loc (w\<lparr>requests := requests w @ [url]\<rparr>)"
        by simp_all
      from ih(1) Some have "downloadToFile e' url dest' w = Some y'"
        by (simp add: downloadToFile_redirect)
      moreover have "e' = e \<and> dest' = dest \<and> y' = y \<longrightarrow> P url w"
        using redirect Some ih by blast
      ultimately show ?thesis by simp
    qed
  qed
  then show ?thesis by simp
qed

lemma downloadToFile_direct:
  assumes t: "redirect_target e url = None" and d: "downloadToFile e url dest w = Some y"
  shows "wrote_only {resolve e dest} w (snd y)"
    and "\<exists>rs. requests (snd y) = requests w @ rs"
    and "fst y = Inr () \<Longrightarrow>
           \<exists>st loc b. net e url = Response st loc (Finished b)
             \<and> files (snd y) (resolve e dest) = Some (Regular b)"
    and "parseURL e url = Some parsed \<Longrightarrow> protocol parsed = ''https:'' \<or> protocol parsed = ''http:'' \<Longrightarrow>
           requests (snd y) = requests w @ [url]"
    and "(files (snd y) k = Some Directory) = (files w k = Some Directory)"
proof -
  note u = d [unfolded downloadToFile.simps [of e url dest w]]
  show "wrote_only {resolve e dest} w (snd y)"
    using u t
    by (auto simp: redirect_target_def stream_frame Let_def
           split: option.splits if_splits response.splits transfer.splits sum.splits)
  show "\<exists>rs. requests (snd y) = requests w @ rs"
    using u t
    by (auto simp: redirect_target_def createWriteStream_opens Let_def
           split: option.splits if_splits response.splits transfer.splits sum.splits)
  show "\<exists>st loc b. net e url = Response st loc (Finished b)
          \<and> files (snd y) (resolve e dest) = Some (Regular b)"
    if "fst y = Inr ()"
    using u t that
    by (auto simp: redirect_target_def stream_files Let_def
           split: option.splits if_splits response.splits transfer.splits sum.splits)
  show "requests (snd y) = requests w @ [url]"
    if "parseURL e url = Some parsed" "protocol parsed = ''https:'' \<or> protocol parsed = ''http:''"
    using u t that
    by (auto simp: redirect_target_def createWriteStream_opens Let_def
           split: option.splits if_splits response.splits transfer.splits sum.splits)
  show "(files (snd y) k = Some Directory) = (files w k = Some Directory)"
    using u t
    by (auto simp: redirect_target_def stream_directories Let_def
           split: option.splits if_splits response.splits transfer.splits sum.splits)
qed

lemma downloadToFile_frame:
  assumes "downloadToFile e url dest w = Some y"
  shows "wrote_only {resolve e dest} w (snd y)"
  using assms
proof (induct rule: downloadToFile_induct)
  case (direct url w)
  then show ?case by (rule downloadToFile_direct(1))
next
  case (redirect url w loc)
  from wrote_only_trans [OF wrote_only_requests redirect(3)] show ?case .
qed

lemma downloadToFile_requests:
  assumes "downloadToFile e url dest w = Some y"
  shows "\<exists>rs. requests (snd y) = requests w @ rs"
  using assms
proof (induct rule: downloadToFile_induct)
  case (direct url w)
  then show ?case by (rule downloadToFile_direct(2))
next
  case (redirect url w loc)
  then show ?case by auto
qed

lemma downloadToFile_directories:
  assumes "downloadToFile e url dest w = Some y"
  shows "(files (snd y) k = Some Directory) = (files w k = Some Directory)"
  using assms
proof (induct rule: downloadToFile_induct)
  case (direct url w)
  then show ?case by (rule downloadToFile_direct(5))
next
  case (redirect url w loc)
  then show ?case by simp
qed

lemma downloadToFile_complete:
  assumes "downloadToFile e url dest w = Some y" and "fst y = Inr ()"
  shows "\<exists>u st loc b. net e u = Response st loc (Finished b)
           \<and> files (snd y) (resolve e dest) = Some (Regular b)"
  using assms
proof (induct rule: downloadToFile_induct)
  case (direct url w)
  from downloadToFile_direct(3) [OF direct(1,2,3)] show ?case by blast
next
  case (redirect url w loc)
  then show ?case by simp
qed

lemma downloadToFile_requests_first:
  assumes d: "downloadToFile e url dest w = Some y"
    and p: "parseURL e url = Some parsed" "protocol parsed = ''https:'' \<or> protocol parsed = ''http:''"
  shows "\<exists>rs. requests (snd y) = requests w @ url # rs"
proof (cases "redirect_target e url")
  case None
  from downloadToFile_direct(4) [OF None d p] show ?thesis by simp
next
  case (Some loc)
  with d have "downloadToFile e loc dest (w\<lparr>requests := requests w @ [url]\<rparr>) = Some y"
    by (simp add: downloadToFile_redirect)
  from downloadToFile_requests [OF this] show ?thesis by auto
qed

text \<open>
  Where the network serves a locator, the call settles with the body at the destination,
  having made the requests of one fetch; unless the destination is a directory.
\<close>

lemma downloadToFile_fetches:
  assumes "fetches e url rs b" and "files w (resolve e dest) \<noteq> Some Directory"
  shows "downloadToFile e url dest w =
           Some (Inr (), pipe (resolve e dest) [] b
                   (writeFs ((files w)(resolve e dest \<mapsto> Regular []))
                      (w\<lparr>requests := requests w @ rs\<rparr>)))"
  using assms
proof (induction arbitrary: w rule: fetches.induct)
  case (direct e url parsed statusCode location b)
  from direct(4) direct(1,2,3) have nr:
    "\<not> ((case statusCode of None \<Rightarrow> False | Some c \<Rightarrow> c \<noteq> 0 \<and> 300 \<le> c \<and> c < 400)
        \<and> truthy location)"
    by (auto simp: redirect_target_def split: if_splits)
  from direct(5) have ne: "\<not> (case statusCode of None \<Rightarrow> False | Some c \<Rightarrow> c \<noteq> 0 \<and> 400 \<le> c)"
    by (auto split: option.splits)
  show ?case
    using direct(1,2,3,6) nr ne
    by (subst downloadToFile.simps) (auto simp: createWriteStream_opens Let_def)
next
  case (redirect e url location rs b)
  from redirect(4) have "files (w\<lparr>requests := requests w @ [url]\<rparr>) (resolve e dest) \<noteq> Some Directory"
    by simp
  from redirect(3) [OF this] redirect(1) show ?case
    by (simp add: downloadToFile_redirect)
qed

text \<open>
  Conversely, a call settles with success only where the network serves the locator.
\<close>

lemma downloadToFile_served:
  assumes "downloadToFile e url dest w = Some (Inr (), wd)"
  shows "\<exists>rs b. fetches e url rs b"
  using assms
proof (induct rule: downloadToFile_induct)
  case (direct url w)
  note u = direct(2) [unfolded downloadToFile.simps [of e url dest w]]
  from u obtain parsed where p: "parseURL e url = Some parsed"
    "protocol parsed = ''https:'' \<or> protocol parsed = ''http:''"
    by (auto split: option.splits if_splits)
  from u p direct(1) obtain st loc b where n: "net e url = Response st loc (Finished b)"
    and ok: "case st of None \<Rightarrow> True | Some c \<Rightarrow> c < 400"
    by (auto simp: redirect_target_def Let_def
          split: option.splits if_splits response.splits transfer.splits sum.splits)
  from fetches.direct [OF p n direct(1) ok] show ?case by blast
next
  case (redirect url w loc)
  then show ?case by (blast intro: fetches.redirect)
qed

lemma fetches_first: "fetches e url rs b \<Longrightarrow> \<exists>rs'. rs = url # rs'"
  by (induction rule: fetches.induct) auto

lemma fetches_direct: "fetches e url rs b \<Longrightarrow> redirect_target e url = None \<Longrightarrow> rs = [url]"
  by (induction rule: fetches.induct) auto

subsection \<open>\<^verbatim>\<open>_downloadUrl\<close> and \<^verbatim>\<open>File.from\<close> on a URL\<close>

lemma isUrl_nonempty: "isUrl url \<Longrightarrow> url \<noteq> []"
  by (auto simp: isUrl_def startsWith_def)

lemma downloadUrl_hit:
  "File_getCachePath e url = Inr cachePath \<Longrightarrow> existsSync e w cachePath \<Longrightarrow>
   File_downloadUrl e url this w = Some (Inr (this\<lparr>path := Some cachePath\<rparr>), w)"
  by (simp add: File_downloadUrl_def)

lemma downloadUrl_failed:
  "File_getCachePath e url = Inr cachePath \<Longrightarrow> \<not> existsSync e w cachePath \<Longrightarrow>
   downloadToFile e url (cachePath @ ''.tmp'') w = Some (Inl err, w1) \<Longrightarrow>
   File_downloadUrl e url this w = Some (cleanup e url (cachePath @ ''.tmp'') err w1)"
  by (simp add: File_downloadUrl_def)

lemma downloadUrl_fetched:
  assumes c: "File_getCachePath e url = Inr cachePath" and m: "\<not> existsSync e w cachePath"
    and d: "downloadToFile e url (cachePath @ ''.tmp'') w = Some (Inr (), w1)"
  shows "\<exists>u st loc b. net e u = Response st loc (Finished b)
           \<and> files w1 (resolve e (cachePath @ ''.tmp'')) = Some (Regular b)
           \<and> File_downloadUrl e url this w =
               Some (Inr (this\<lparr>path := Some cachePath\<rparr>),
                     writeFs (((files w1)(resolve e (cachePath @ ''.tmp'') := None))
                                (resolve e cachePath \<mapsto> Regular b)) w1)"
proof -
  from downloadToFile_complete [OF d] obtain u st loc b where
    b: "net e u = Response st loc (Finished b)"
       "files w1 (resolve e (cachePath @ ''.tmp'')) = Some (Regular b)"
    by auto
  from downloadToFile_frame [OF d] have "wrote_only {resolve e (cachePath @ ''.tmp'')} w w1"
    by simp
  from wrote_only_files [OF this, of "resolve e cachePath"] m
  have t: "files w1 (resolve e cachePath) = None"
    by (simp add: existsSync_def)
  from c m d b(2) t have "File_downloadUrl e url this w =
      Some (Inr (this\<lparr>path := Some cachePath\<rparr>),
            writeFs (((files w1)(resolve e (cachePath @ ''.tmp'') := None))
                       (resolve e cachePath \<mapsto> Regular b)) w1)"
    by (simp add: File_downloadUrl_def renameSync_def)
  with b show ?thesis by blast
qed

lemma from_url:
  "isUrl url \<Longrightarrow>
   File_from e (Str url) w =
     (case File_downloadUrl e url
             \<lparr>uri = Some url, path = None, contentType = None, size_bytes = None, filename = None\<rparr> w of
        None \<Rightarrow> None
      | Some (Inl err, w1) \<Rightarrow> Some (Inl err, w1)
      | Some (Inr fl, w1) \<Rightarrow>
          if truthy (path fl)
          then Some (Inr (File_populateMetadata e w1 (fl\<lparr>path := Some (resolve e (the (path fl)))\<rparr>)), w1)
          else Some (Inl ResolutionFailed, w1))"
  by (simp add: File_from_def to_options_def isUrl_nonempty)

lemma unlinkSync_fails:
  "(\<exists>e2. unlinkSync e p w = Inl e2) = (\<forall>b. files w (resolve e p) \<noteq> Some (Regular b))"
  by (auto simp: unlinkSync_def split: option.splits node.splits)

lemma cleanup_world:
  "cleanup e url tmp err w1 = (r, w') \<Longrightarrow>
   r = Inl (TransferFailed url err)
   \<and> existsSync e w' tmp = (files w1 (resolve e tmp) = Some Directory)
   \<and> (\<forall>p. p \<noteq> resolve e tmp \<longrightarrow> files w' p = files w1 p) \<and> requests w' = requests w1
   \<and> (\<forall>e2. unlinkSync e tmp w1 = Inl e2 \<longrightarrow> w' = w1)"
  by (auto simp: cleanup_def unlinkSync_def existsSync_def split: option.splits node.splits)

lemma plain_URL_png: "plain_URL ''https://example.com/a.png'' =
    Some \<lparr>protocol = ''https:'', host = ''example.com'', pathname = ''/a.png'',
          search = [], hash = []\<rparr>"
  by code_simp

lemma node_parse_png:
  "parseURL (node n) ''https://example.com/a.png'' =
     Some \<lparr>protocol = ''https:'', host = ''example.com'', pathname = ''/a.png'',
           search = [], hash = []\<rparr>"
  by (simp add: node_def plain_URL_png)

lemma node_net: "net (node n) u = n u"
  by (simp add: node_def)

lemma png_cachePath:
  "join [join [''/home/app/.cache/inferencesh/files'', take 12 (digest_of ''example.com/a.png'')],
         ''a.png''] = ''/home/app/.cache/inferencesh/files/bfb062b2088b/a.png''"
  by code_simp

lemma png_basename: "basename ''/a.png'' = ''a.png''"
  by code_simp

lemma node_png_cachePath:
  "File_getCachePath (node n) ''https://example.com/a.png'' =
     Inr ''/home/app/.cache/inferencesh/files/bfb062b2088b/a.png''"
  using getCachePath_parsed [of "node n" "''https://example.com/a.png''"
      "\<lparr>protocol = ''https:'', host = ''example.com'', pathname = ''/a.png'',
        search = [], hash = []\<rparr>"]
  by (simp add: node_def plain_URL_png)
     (simp add: node_cacheDir [unfolded node_def] cacheKey_def cacheFilename_def png_basename png_cachePath)

lemma png_resolve:
  "resolve (node n) ''/home/app/.cache/inferencesh/files/bfb062b2088b/a.png'' =
     ''/home/app/.cache/inferencesh/files/bfb062b2088b/a.png''"
  by code_simp

lemma png_tmp_resolve:
  "resolve (node n) ''/home/app/.cache/inferencesh/files/bfb062b2088b/a.png.tmp'' =
     ''/home/app/.cache/inferencesh/files/bfb062b2088b/a.png.tmp''"
  by code_simp

lemma directory_download:
  assumes "files w (resolve (node (serving body)) dest) = Some Directory"
  shows "downloadToFile (node (serving body)) ''https://example.com/a.png'' dest w =
     Some (Inl (EISDIR dest), w\<lparr>requests := requests w @ [''https://example.com/a.png'']\<rparr>)"
  using assms
  by (subst downloadToFile.simps)
     (simp add: createWriteStream_opens Let_def node_parse_png node_net serving_def)

lemma breaking_download:
  assumes "files w (resolve (node (breaking got msg)) dest) \<noteq> Some Directory"
  shows "downloadToFile (node (breaking got msg)) ''https://example.com/a.png'' dest w =
     Some (Inl (StreamFailed msg),
           pipe (resolve (node (breaking got msg)) dest) [] got
             (writeFs ((files w)(resolve (node (breaking got msg)) dest \<mapsto> Regular []))
                (w\<lparr>requests := requests w @ [''https://example.com/a.png'']\<rparr>)))"
  using assms
  by (subst downloadToFile.simps)
     (simp add: createWriteStream_opens Let_def node_parse_png node_net breaking_def)

text \<open>
  C6. When the fetch of a locator that is not in the cache fails, \<^verbatim>\<open>_downloadUrl\<close>
  (and with it \<^verbatim>\<open>File.from\<close>) fails with the transfer error that carries the locator
  and the cause. The temporary path is gone afterwards, unless a directory was in its
  place from the start, which the fetch cannot write to and the cleanup cannot delete;
  and no other entry has changed. Where the deletion itself fails the world is left as
  the fetch left it and the transfer error is reported all the same. No request is made
  after the failed fetch.
\<close>

theorem failed_fetch_propagates:
  assumes "File_getCachePath e url = Inr cachePath"
    and "\<not> existsSync e w cachePath"
    and "downloadToFile e url (cachePath @ ''.tmp'') w = Some (Inl err, w1)"
  shows "\<exists>w'. File_downloadUrl e url this w = Some (Inl (TransferFailed url err), w')
           \<and> existsSync e w' (cachePath @ ''.tmp'')
               = (files w (resolve e (cachePath @ ''.tmp'')) = Some Directory)
           \<and> (\<forall>p. p \<noteq> resolve e (cachePath @ ''.tmp'') \<longrightarrow> files w' p = files w1 p)
           \<and> requests w' = requests w1
           \<and> (\<forall>e2. unlinkSync e (cachePath @ ''.tmp'') w1 = Inl e2 \<longrightarrow> w' = w1)
           \<and> (isUrl url \<longrightarrow> File_from e (Str url) w = Some (Inl (TransferFailed url err), w'))"
proof -
  obtain r w' where cl: "cleanup e url (cachePath @ ''.tmp'') err w1 = (r, w')"
    by (cases "cleanup e url (cachePath @ ''.tmp'') err w1")
  note facts = cleanup_world [OF cl]
  from facts have r: "r = Inl (TransferFailed url err)" by simp
  from downloadToFile_directories [OF assms(3), of "resolve e (cachePath @ ''.tmp'')"]
  have dir: "(files w1 (resolve e (cachePath @ ''.tmp'')) = Some Directory)
             = (files w (resolve e (cachePath @ ''.tmp'')) = Some Directory)"
    by simp
  have dl: "File_downloadUrl e url this w = Some (Inl (TransferFailed url err), w')" for this
    using downloadUrl_failed [OF assms] cl r by simp
  have "File_from e (Str url) w = Some (Inl (TransferFailed url err), w')" if "isUrl url"
    using that dl by (simp add: from_url)
  with dl facts dir show ?thesis by blast
qed

theorem failed_fetch_propagates_witness:
  "map_option (\<lambda>(r, w'). (r, requests w',
        files w' ''/home/app/.cache/inferencesh/files/bfb062b2088b/a.png.tmp'',
        files w' ''/home/app/.cache/inferencesh/files/bfb062b2088b/a.png''))
     (File_from (node (breaking ''PN'' ''ENOSPC'')) (Str ''https://example.com/a.png'') (disk []))
   = Some (Inl (TransferFailed ''https://example.com/a.png'' (StreamFailed ''ENOSPC'')),
           [''https://example.com/a.png''], None, None)
   \<and> map_option (\<lambda>(r, w'). (r, requests w',
        files w' ''/home/app/.cache/inferencesh/files/bfb062b2088b/a.png.tmp'',
        files w' ''/home/app/.cache/inferencesh/files/bfb062b2088b/a.png''))
     (File_from (node (serving ''PNG'')) (Str ''https://example.com/a.png'')
        ((disk [])\<lparr>files :=
           [''/home/app/.cache/inferencesh/files/bfb062b2088b/a.png.tmp'' \<mapsto> Directory]\<rparr>))
   = Some (Inl (TransferFailed ''https://example.com/a.png''
                  (EISDIR ''/home/app/.cache/inferencesh/files/bfb062b2088b/a.png.tmp'')),
           [''https://example.com/a.png''], Some Directory, None)"
proof -
  let ?e = "node (breaking ''PN'' ''ENOSPC'')"
  let ?url = "''https://example.com/a.png''"
  let ?cp = "''/home/app/.cache/inferencesh/files/bfb062b2088b/a.png''"
  let ?w1 = "pipe (?cp @ ''.tmp'') [] ''PN''
               (writeFs ((files (disk []))(?cp @ ''.tmp'' \<mapsto> Regular []))
                  ((disk [])\<lparr>requests := requests (disk []) @ [?url]\<rparr>))"
  have miss: "\<not> existsSync ?e (disk []) ?cp"
    by (simp add: existsSync_def disk_def)
  have url: "isUrl ?url"
    by (simp add: isUrl_def startsWith_def)
  have nd: "files (disk []) (resolve ?e (?cp @ ''.tmp'')) \<noteq> Some Directory"
    by (simp add: disk_def)
  have d: "downloadToFile ?e ?url (?cp @ ''.tmp'') (disk []) = Some (Inl (StreamFailed ''ENOSPC''), ?w1)"
    using breaking_download [OF nd] png_tmp_resolve [of "breaking ''PN'' ''ENOSPC''"] by simp
  from failed_fetch_propagates [OF node_png_cachePath miss d]
  obtain w' where w': "existsSync ?e w' (?cp @ ''.tmp'')
        = (files (disk []) (resolve ?e (?cp @ ''.tmp'')) = Some Directory)"
      "\<forall>p. p \<noteq> resolve ?e (?cp @ ''.tmp'') \<longrightarrow> files w' p = files ?w1 p" "requests w' = requests ?w1"
      "isUrl ?url \<longrightarrow> File_from ?e (Str ?url) (disk []) =
         Some (Inl (TransferFailed ?url (StreamFailed ''ENOSPC'')), w')"
    by blast
  from w'(2) png_tmp_resolve [of "breaking ''PN'' ''ENOSPC''"]
  have "files w' ?cp = files ?w1 ?cp" by simp
  then have tgt: "files w' ?cp = None"
    by (simp add: pipe_files disk_def)
  from w'(3) have rq: "requests w' = [?url]"
    by (simp add: disk_def)
  from w'(1) png_tmp_resolve [of "breaking ''PN'' ''ENOSPC''"]
  have tmp: "files w' (?cp @ ''.tmp'') = None"
    by (simp add: existsSync_def disk_def)
  from w'(4) url tgt rq tmp have broken:
    "map_option (\<lambda>(r, w'). (r, requests w', files w' (?cp @ ''.tmp''), files w' ?cp))
       (File_from ?e (Str ?url) (disk []))
     = Some (Inl (TransferFailed ?url (StreamFailed ''ENOSPC'')), [?url], None, None)"
    by simp
  let ?s = "node (serving ''PNG'')"
  let ?wdir = "(disk [])\<lparr>files := [?cp @ ''.tmp'' \<mapsto> Directory]\<rparr>"
  let ?w2 = "?wdir\<lparr>requests := requests ?wdir @ [?url]\<rparr>"
  have miss': "\<not> existsSync ?s ?wdir ?cp"
    by (simp add: existsSync_def png_resolve)
  have isdir: "files ?wdir (resolve ?s (?cp @ ''.tmp'')) = Some Directory"
    using png_tmp_resolve [of "serving ''PNG''"] by simp
  have d': "downloadToFile ?s ?url (?cp @ ''.tmp'') ?wdir = Some (Inl (EISDIR (?cp @ ''.tmp'')), ?w2)"
    by (rule directory_download [OF isdir])
  have ul: "unlinkSync ?s (?cp @ ''.tmp'') ?w2 = Inl (EISDIR (?cp @ ''.tmp''))"
    using isdir by (simp add: unlinkSync_def)
  from failed_fetch_propagates [OF node_png_cachePath miss' d']
  obtain v where v: "\<forall>e2. unlinkSync ?s (?cp @ ''.tmp'') ?w2 = Inl e2 \<longrightarrow> v = ?w2"
      "isUrl ?url \<longrightarrow> File_from ?s (Str ?url) ?wdir =
         Some (Inl (TransferFailed ?url (EISDIR (?cp @ ''.tmp''))), v)"
    by blast
  from v(1) ul have "v = ?w2" by simp
  with v(2) url have directory:
    "map_option (\<lambda>(r, w'). (r, requests w', files w' (?cp @ ''.tmp''), files w' ?cp))
       (File_from ?s (Str ?url) ?wdir)
     = Some (Inl (TransferFailed ?url (EISDIR (?cp @ ''.tmp''))), [?url], Some Directory, None)"
    by (simp add: disk_def)
  from broken directory show ?thesis by simp
qed

subsection \<open>The commit by rename\<close>

lemma cleanup_frame: "wrote_only {resolve e tmp} w1 (snd (cleanup e url tmp err w1))"
proof (cases "\<exists>b. files w1 (resolve e tmp) = Some (Regular b)")
  case False
  then have "\<exists>e2. unlinkSync e tmp w1 = Inl e2" by (simp add: unlinkSync_fails)
  then show ?thesis by (auto simp: cleanup_def)
next
  case True
  have "wrote_only {resolve e tmp} w1 (writeFs ((files w1)(resolve e tmp := None)) w1)"
    by (rule wrote_only_writeFs) simp
  with True show ?thesis by (auto simp: cleanup_def unlinkSync_def)
qed

lemma serving_download:
  assumes "files w (resolve (node (serving body)) dest) \<noteq> Some Directory"
  shows "downloadToFile (node (serving body)) ''https://example.com/a.png'' dest w =
     Some (Inr (),
           pipe (resolve (node (serving body)) dest) [] body
             (writeFs ((files w)(resolve (node (serving body)) dest \<mapsto> Regular []))
                (w\<lparr>requests := requests w @ [''https://example.com/a.png'']\<rparr>)))"
  using assms
  by (subst downloadToFile.simps)
     (simp add: createWriteStream_opens Let_def node_parse_png node_net serving_def)

lemma serving_downloadUrl:
  "File_downloadUrl (node (serving body)) ''https://example.com/a.png'' this (disk []) =
     Some (Inr (this\<lparr>path := Some ''/home/app/.cache/inferencesh/files/bfb062b2088b/a.png''\<rparr>),
       writeFs [''/home/app/.cache/inferencesh/files/bfb062b2088b/a.png'' \<mapsto> Regular body]
         (pipe ''/home/app/.cache/inferencesh/files/bfb062b2088b/a.png.tmp'' [] body
           (writeFs [''/home/app/.cache/inferencesh/files/bfb062b2088b/a.png.tmp'' \<mapsto> Regular []]
             ((disk [])\<lparr>requests := [''https://example.com/a.png'']\<rparr>))))"
proof -
  have nd: "files (disk []) (resolve (node (serving body))
              ''/home/app/.cache/inferencesh/files/bfb062b2088b/a.png.tmp'') \<noteq> Some Directory"
    by (simp add: disk_def)
  show ?thesis
    using serving_download [OF nd]
    by (simp add: File_downloadUrl_def node_png_cachePath existsSync_def png_resolve
        png_tmp_resolve renameSync_def pipe_files)
       (simp add: disk_def)
qed

text \<open>
  C5. In every state the file system goes through during \<^verbatim>\<open>_downloadUrl\<close>, and in the
  one it ends in, only the entry of the target path and that of its temporary sibling
  \<^verbatim>\<open>target + ".tmp"\<close> can differ from what was there before, and the target holds either
  what it held before (nothing, on a cache miss) or a regular file with the whole body of
  a response that finished; the latter only in a run that succeeds. So a run stopped at
  any moment, and a run whose fetch fails, leave the target as it was: the bytes of a
  transfer in progress are at the temporary path only.
\<close>

theorem target_never_partial:
  assumes c: "File_getCachePath e url = Inr target"
    and run: "File_downloadUrl e url this w = Some (r, w')"
  shows "\<exists>ts. trace w' = trace w @ ts
           \<and> (\<forall>f \<in> set ts.
                 (\<forall>p. p \<noteq> resolve e target \<and> p \<noteq> resolve e (target @ ''.tmp'') \<longrightarrow> f p = files w p)
                 \<and> (f (resolve e target) = files w (resolve e target)
                     \<or> (\<exists>u st loc b. net e u = Response st loc (Finished b)
                           \<and> f (resolve e target) = Some (Regular b))
                        \<and> (\<exists>fl. r = Inr fl)))
           \<and> (\<forall>p. p \<noteq> resolve e target \<and> p \<noteq> resolve e (target @ ''.tmp'') \<longrightarrow>
                 files w' p = files w p)
           \<and> (files w' (resolve e target) = files w (resolve e target)
               \<or> (\<exists>u st loc b. net e u = Response st loc (Finished b)
                     \<and> files w' (resolve e target) = Some (Regular b))
                  \<and> (\<exists>fl. r = Inr fl))
           \<and> ((\<exists>err. r = Inl err) \<longrightarrow> files w' (resolve e target) = files w (resolve e target))"
proof (cases "existsSync e w target")
  case True
  with c run have "w' = w" by (simp add: downloadUrl_hit)
  then show ?thesis by simp
next
  case miss: False
  let ?tmp = "target @ ''.tmp''"
  let ?T = "resolve e target"
  let ?M = "resolve e (target @ ''.tmp'')"
  have ne: "?T \<noteq> ?M" by simp
  from c miss run obtain r1 w1 where d: "downloadToFile e url ?tmp w = Some (r1, w1)"
    by (cases "downloadToFile e url ?tmp w") (auto simp: File_downloadUrl_def)
  from downloadToFile_frame [OF d] have fr1: "wrote_only {?M} w w1" by simp
  show ?thesis
  proof (cases r1)
    case (Inl err)
    with c miss d run have res: "(r, w') = cleanup e url ?tmp err w1"
      by (simp add: downloadUrl_failed)
    then have w': "w' = snd (cleanup e url ?tmp err w1)" and r: "r = Inl (TransferFailed url err)"
      by (simp_all add: cleanup_def prod_eq_iff)
    from wrote_only_trans [OF fr1 cleanup_frame [of e ?tmp w1 url err]] w'
    have fr: "wrote_only {?M} w w'" by simp
    from wrote_only_unfold [OF fr] obtain ts where ts: "trace w' = trace w @ ts"
      "\<forall>f \<in> set ts. \<forall>p. p \<notin> {?M} \<longrightarrow> f p = files w p" by blast
    have "\<forall>f \<in> set ts. (\<forall>p. p \<noteq> ?T \<and> p \<noteq> ?M \<longrightarrow> f p = files w p)
            \<and> f ?T = files w ?T"
      using ts(2) ne by simp
    moreover have "\<forall>p. p \<noteq> ?M \<longrightarrow> files w' p = files w p"
      using wrote_only_files [OF fr] by simp
    ultimately show ?thesis using ts(1) ne by auto
  next
    case (Inr u)
    with d have d': "downloadToFile e url ?tmp w = Some (Inr (), w1)" by simp
    from downloadUrl_fetched [OF c miss d', of this] run obtain v st loc b where
      b: "net e v = Response st loc (Finished b)" "files w1 ?M = Some (Regular b)"
      and w': "w' = writeFs (((files w1)(?M := None))(?T \<mapsto> Regular b)) w1"
      and r: "r = Inr (this\<lparr>path := Some target\<rparr>)"
      by auto
    from wrote_only_unfold [OF fr1] obtain ts where ts: "trace w1 = trace w @ ts"
      "\<forall>f \<in> set ts. \<forall>p. p \<notin> {?M} \<longrightarrow> f p = files w p" by blast
    let ?f2 = "((files w1)(?M := None))(?T \<mapsto> Regular b)"
    have tr: "trace w' = trace w @ (ts @ [?f2])"
      using w' ts(1) by simp
    have old: "\<forall>f \<in> set ts. (\<forall>p. p \<noteq> ?T \<and> p \<noteq> ?M \<longrightarrow> f p = files w p)
            \<and> f ?T = files w ?T"
      using ts(2) ne by simp
    have new1: "\<forall>p. p \<noteq> ?T \<and> p \<noteq> ?M \<longrightarrow> ?f2 p = files w p"
      using wrote_only_files [OF fr1] by simp
    have new2: "\<exists>u st loc b. net e u = Response st loc (Finished b) \<and> ?f2 ?T = Some (Regular b)"
      using b(1) by auto
    have all: "\<forall>f \<in> set (ts @ [?f2]).
                 (\<forall>p. p \<noteq> ?T \<and> p \<noteq> ?M \<longrightarrow> f p = files w p)
                 \<and> (f ?T = files w ?T
                     \<or> (\<exists>u st loc b. net e u = Response st loc (Finished b) \<and> f ?T = Some (Regular b))
                        \<and> (\<exists>fl. r = Inr fl))"
      using old new1 new2 r by auto
    have fin: "files w' = ?f2" using w' by simp
    show ?thesis
      using tr all new1 new2 r fin by (intro exI [of _ "ts @ [?f2]"]) auto
  qed
qed

theorem target_never_partial_witness:
  "map_option (\<lambda>(r, w'). (r, map (\<lambda>f.
        (f ''/home/app/.cache/inferencesh/files/bfb062b2088b/a.png.tmp'',
         f ''/home/app/.cache/inferencesh/files/bfb062b2088b/a.png'')) (trace w')))
     (File_downloadUrl (node (serving ''PNG'')) ''https://example.com/a.png''
        \<lparr>uri = Some ''https://example.com/a.png'', path = None, contentType = None,
         size_bytes = None, filename = None\<rparr> (disk []))
   = Some (Inr \<lparr>uri = Some ''https://example.com/a.png'',
                 path = Some ''/home/app/.cache/inferencesh/files/bfb062b2088b/a.png'',
                 contentType = None, size_bytes = None, filename = None\<rparr>,
           [(Some (Regular []), None), (Some (Regular ''P''), None), (Some (Regular ''PN''), None),
            (Some (Regular ''PNG''), None), (None, Some (Regular ''PNG''))])"
proof -
  note run = serving_downloadUrl [of "''PNG''"
        "\<lparr>uri = Some ''https://example.com/a.png'', path = None, contentType = None,
          size_bytes = None, filename = None\<rparr>"]
  note inst = target_never_partial [OF node_png_cachePath [of "serving ''PNG''"] run]
  show ?thesis
    unfolding run using inst by (simp add: disk_def)
qed

subsection \<open>Resolving a locator twice\<close>

lemma downloadUrl_success:
  assumes "File_downloadUrl e url this w = Some (Inr fl, w1)"
  shows "\<exists>target. File_getCachePath e url = Inr target \<and> fl = this\<lparr>path := Some target\<rparr>
           \<and> existsSync e w1 target
           \<and> (existsSync e w target \<longrightarrow> w1 = w)
           \<and> (\<not> existsSync e w target \<longrightarrow>
                (\<exists>wd. downloadToFile e url (target @ ''.tmp'') w = Some (Inr (), wd)
                      \<and> requests w1 = requests wd))"
proof -
  from assms obtain target where c: "File_getCachePath e url = Inr target"
    by (cases "File_getCachePath e url") (auto simp: File_downloadUrl_def)
  show ?thesis
  proof (cases "existsSync e w target")
    case True
    with c assms show ?thesis by (auto simp: downloadUrl_hit)
  next
    case miss: False
    from c miss assms obtain r1 wd where d: "downloadToFile e url (target @ ''.tmp'') w = Some (r1, wd)"
      by (cases "downloadToFile e url (target @ ''.tmp'') w") (auto simp: File_downloadUrl_def)
    show ?thesis
    proof (cases r1)
      case (Inl err)
      with c miss d assms show ?thesis
        by (simp add: downloadUrl_failed cleanup_def)
    next
      case (Inr u)
      with d have d': "downloadToFile e url (target @ ''.tmp'') w = Some (Inr (), wd)" by simp
      from downloadUrl_fetched [OF c miss d', of this] assms obtain b where
        "fl = this\<lparr>path := Some target\<rparr>"
        "w1 = writeFs (((files wd)(resolve e (target @ ''.tmp'') := None))
                         (resolve e target \<mapsto> Regular b)) wd"
        by auto
      with c miss d' show ?thesis by (auto simp: existsSync_def)
    qed
  qed
qed

lemma normalize_nonempty: "normalize p \<noteq> []"
  by (auto simp: normalize_def Let_def)

lemma join_nonempty: "join args \<noteq> []"
  by (simp add: join_def Let_def normalize_nonempty)

lemma getCachePath_nonempty: "File_getCachePath e url = Inr target \<Longrightarrow> target \<noteq> []"
  by (auto simp: File_getCachePath_def Let_def join_nonempty split: option.splits)

lemma from_url_success:
  assumes u: "isUrl url" and r: "File_from e (Str url) w = Some (Inr f, w1)"
  shows "\<exists>target. File_getCachePath e url = Inr target
           \<and> File_downloadUrl e url
                \<lparr>uri = Some url, path = None, contentType = None, size_bytes = None, filename = None\<rparr> w
              = Some (Inr \<lparr>uri = Some url, path = Some target, contentType = None,
                           size_bytes = None, filename = None\<rparr>, w1)
           \<and> f = File_populateMetadata e w1
                   \<lparr>uri = Some url, path = Some (resolve e target), contentType = None,
                    size_bytes = None, filename = None\<rparr>"
proof -
  let ?o = "\<lparr>uri = Some url, path = None, contentType = None, size_bytes = None, filename = None\<rparr>"
  from r u obtain fl where dl: "File_downloadUrl e url ?o w = Some (Inr fl, w1)"
    and f: "f = File_populateMetadata e w1 (fl\<lparr>path := Some (resolve e (the (path fl)))\<rparr>)"
    by (auto simp: from_url split: option.splits sum.splits if_splits)
  from downloadUrl_success [OF dl] obtain target where
    t: "File_getCachePath e url = Inr target" "fl = ?o\<lparr>path := Some target\<rparr>" by blast
  with dl f show ?thesis by simp
qed

text \<open>
  A locator that has been resolved is in the cache: resolving it again returns the same
  reference and leaves the world as it is.
\<close>

lemma resolved_again:
  assumes u: "isUrl url" and first: "File_from e (Str url) w = Some (Inr f1, w1)"
  shows "File_from e (Str url) w1 = Some (Inr f1, w1)"
proof -
  let ?o = "\<lparr>uri = Some url, path = None, contentType = None, size_bytes = None, filename = None\<rparr>"
  from from_url_success [OF u first] obtain target where
    c: "File_getCachePath e url = Inr target"
    and dl: "File_downloadUrl e url ?o w = Some (Inr (?o\<lparr>path := Some target\<rparr>), w1)"
    and f1: "f1 = File_populateMetadata e w1 (?o\<lparr>path := Some (resolve e target)\<rparr>)"
    by auto
  from downloadUrl_success [OF dl] c have ex: "existsSync e w1 target" by auto
  from c ex have "File_downloadUrl e url ?o w1 = Some (Inr (?o\<lparr>path := Some target\<rparr>), w1)"
    by (rule downloadUrl_hit)
  with u f1 getCachePath_nonempty [OF c] show ?thesis
    by (simp add: from_url)
qed

text \<open>
  A locator that is not in the cache and that the network serves is fetched: the
  resolution returns, with the body committed at the cache path.
\<close>

lemma cold_from:
  assumes u: "isUrl url" and c: "File_getCachePath e url = Inr target"
    and m: "\<not> existsSync e w target"
    and nd: "files w (resolve e (target @ ''.tmp'')) \<noteq> Some Directory"
    and f: "fetches e url rs b"
  shows "\<exists>w1. File_from e (Str url) w =
            Some (Inr (File_populateMetadata e w1
                        \<lparr>uri = Some url, path = Some (resolve e target), contentType = None,
                         size_bytes = None, filename = None\<rparr>), w1)
          \<and> files w1 (resolve e target) = Some (Regular b)
          \<and> requests w1 = requests w @ rs"
proof -
  let ?o = "\<lparr>uri = Some url, path = None, contentType = None, size_bytes = None, filename = None\<rparr>"
  let ?M = "resolve e (target @ ''.tmp'')"
  let ?wd = "pipe ?M [] b (writeFs ((files w)(?M \<mapsto> Regular [])) (w\<lparr>requests := requests w @ rs\<rparr>))"
  from downloadToFile_fetches [OF f nd]
  have d: "downloadToFile e url (target @ ''.tmp'') w = Some (Inr (), ?wd)" .
  from downloadUrl_fetched [OF c m d, of ?o] obtain b' where
    b': "files ?wd ?M = Some (Regular b')"
    and dl: "File_downloadUrl e url ?o w =
               Some (Inr (?o\<lparr>path := Some target\<rparr>),
                     writeFs (((files ?wd)(?M := None))(resolve e target \<mapsto> Regular b')) ?wd)"
    by blast
  from b' have "b' = b" by (simp add: pipe_files split: if_splits)
  with dl u getCachePath_nonempty [OF c] show ?thesis
    by (simp add: from_url)
qed

lemma png_isUrl: "isUrl ''https://example.com/a.png''"
  by (simp add: isUrl_def startsWith_def)

lemma png_contentType:
  "guessContentType ''/home/app/.cache/inferencesh/files/bfb062b2088b/a.png'' = Some ''image/png''"
  by code_simp

lemma png_filename:
  "basename ''/home/app/.cache/inferencesh/files/bfb062b2088b/a.png'' = ''a.png''"
  by code_simp

lemma serving_from:
  "File_from (node (serving ''PNG'')) (Str ''https://example.com/a.png'') (disk []) =
     Some (Inr \<lparr>uri = Some ''https://example.com/a.png'',
                 path = Some ''/home/app/.cache/inferencesh/files/bfb062b2088b/a.png'',
                 contentType = Some ''image/png'', size_bytes = Some 3,
                 filename = Some ''a.png''\<rparr>,
       writeFs [''/home/app/.cache/inferencesh/files/bfb062b2088b/a.png'' \<mapsto> Regular ''PNG'']
         (pipe ''/home/app/.cache/inferencesh/files/bfb062b2088b/a.png.tmp'' [] ''PNG''
           (writeFs [''/home/app/.cache/inferencesh/files/bfb062b2088b/a.png.tmp'' \<mapsto> Regular []]
             ((disk [])\<lparr>requests := [''https://example.com/a.png'']\<rparr>))))"
  by (simp add: from_url [OF png_isUrl] serving_downloadUrl png_resolve File_populateMetadata_def
      existsSync_def statSync_size_def png_contentType png_filename)

lemma serving_fetches:
  "fetches (node (serving body)) ''https://example.com/a.png'' [''https://example.com/a.png''] body"
  by (rule fetches.direct [where statusCode = "Some 200" and location = None, OF node_parse_png])
     (simp_all add: node_net serving_def redirect_target_def node_parse_png)

text \<open>
  C3, as the code has it. A remote locator that is not in the cache and that the network
  serves (with a response that is no error and whose body arrives whole, after the
  redirects a fetch follows, the temporary path not being a directory) is resolved by
  performing one fetch: the resolution returns a reference whose path is the resolved
  cache path, the body is committed there, and the requests made are exactly those of
  the one fetch, the first of them for the locator itself and, where the server does not
  redirect, the only one.
  Resolving the locator again in the world the first resolution left returns the same
  reference, so the same path, and leaves the world as it is: the cache entry is found,
  no request is made and nothing is written. So the two resolutions together perform
  exactly one fetch. The second resolution is such a cache hit whenever the first has
  returned a reference, whatever the cache held before.
\<close>

theorem second_resolution_hits_cache:
  "(isUrl url \<and> File_getCachePath e url = Inr target \<and> \<not> existsSync e w target
      \<and> files w (resolve e (target @ ''.tmp'')) \<noteq> Some Directory \<and> fetches e url rs b \<longrightarrow>
      (\<exists>f1 w1. File_from e (Str url) w = Some (Inr f1, w1)
          \<and> path f1 = Some (resolve e target)
          \<and> files w1 (resolve e target) = Some (Regular b)
          \<and> requests w1 = requests w @ rs
          \<and> (\<exists>rs'. rs = url # rs')
          \<and> (redirect_target e url = None \<longrightarrow> rs = [url])
          \<and> File_from e (Str url) w1 = Some (Inr f1, w1)))
   \<and> (isUrl url \<and> File_from e (Str url) w = Some (Inr f, w') \<longrightarrow>
        File_from e (Str url) w' = Some (Inr f, w'))"
proof -
  have cold: "\<exists>f1 w1. File_from e (Str url) w = Some (Inr f1, w1)
          \<and> path f1 = Some (resolve e target)
          \<and> files w1 (resolve e target) = Some (Regular b)
          \<and> requests w1 = requests w @ rs
          \<and> (\<exists>rs'. rs = url # rs')
          \<and> (redirect_target e url = None \<longrightarrow> rs = [url])
          \<and> File_from e (Str url) w1 = Some (Inr f1, w1)"
    if u: "isUrl url" and c: "File_getCachePath e url = Inr target"
      and m: "\<not> existsSync e w target"
      and nd: "files w (resolve e (target @ ''.tmp'')) \<noteq> Some Directory"
      and f: "fetches e url rs b"
  proof -
    let ?f = "\<lambda>w1. File_populateMetadata e w1
                \<lparr>uri = Some url, path = Some (resolve e target), contentType = None,
                 size_bytes = None, filename = None\<rparr>"
    from cold_from [OF u c m nd f] obtain w1 where
      first: "File_from e (Str url) w = Some (Inr (?f w1), w1)"
      and body: "files w1 (resolve e target) = Some (Regular b)"
      and rq: "requests w1 = requests w @ rs"
      by blast
    have p: "path (?f w1) = Some (resolve e target)"
      by (simp add: File_populateMetadata_def Let_def split: sum.splits)
    from resolved_again [OF u first]
    have second: "File_from e (Str url) w1 = Some (Inr (?f w1), w1)" .
    from fetches_first [OF f] have h: "\<exists>rs'. rs = url # rs'" .
    have o: "redirect_target e url = None \<longrightarrow> rs = [url]"
      using fetches_direct [OF f] by simp
    define f1 where "f1 = ?f w1"
    from first p body rq h o second
    have "File_from e (Str url) w = Some (Inr f1, w1)
          \<and> path f1 = Some (resolve e target)
          \<and> files w1 (resolve e target) = Some (Regular b)
          \<and> requests w1 = requests w @ rs
          \<and> (\<exists>rs'. rs = url # rs')
          \<and> (redirect_target e url = None \<longrightarrow> rs = [url])
          \<and> File_from e (Str url) w1 = Some (Inr f1, w1)"
      unfolding f1_def by blast
    then show ?thesis by - (rule exI [of _ f1], rule exI [of _ w1], assumption)
  qed
  have warm: "File_from e (Str url) w' = Some (Inr f, w')"
    if "isUrl url" "File_from e (Str url) w = Some (Inr f, w')"
    using that by (rule resolved_again)
  from cold warm show ?thesis by blast
qed

theorem second_resolution_hits_cache_witness:
  "map_option (\<lambda>(r, w1). (r, requests w1,
        files w1 ''/home/app/.cache/inferencesh/files/bfb062b2088b/a.png'',
        File_from (node (serving ''PNG'')) (Str ''https://example.com/a.png'') w1 = Some (r, w1)))
     (File_from (node (serving ''PNG'')) (Str ''https://example.com/a.png'') (disk []))
   = Some (Inr \<lparr>uri = Some ''https://example.com/a.png'',
                 path = Some ''/home/app/.cache/inferencesh/files/bfb062b2088b/a.png'',
                 contentType = Some ''image/png'', size_bytes = Some 3,
                 filename = Some ''a.png''\<rparr>,
           [''https://example.com/a.png''], Some (Regular ''PNG''), True)"
proof -
  let ?e = "node (serving ''PNG'')"
  let ?url = "''https://example.com/a.png''"
  let ?cp = "''/home/app/.cache/inferencesh/files/bfb062b2088b/a.png''"
  have miss: "\<not> existsSync ?e (disk []) ?cp"
    by (simp add: existsSync_def disk_def)
  have nd: "files (disk []) (resolve ?e (?cp @ ''.tmp'')) \<noteq> Some Directory"
    by (simp add: disk_def)
  from second_resolution_hits_cache
    [where e = ?e and url = ?url and target = ?cp and w = "disk []" and rs = "[?url]"
       and b = "''PNG''"]
    png_isUrl node_png_cachePath [of "serving ''PNG''"] miss nd serving_fetches [of "''PNG''"]
  obtain f1 w1 where
    first: "File_from ?e (Str ?url) (disk []) = Some (Inr f1, w1)"
    and facts: "files w1 (resolve ?e ?cp) = Some (Regular ''PNG'')"
      "requests w1 = requests (disk []) @ [?url]"
      "File_from ?e (Str ?url) w1 = Some (Inr f1, w1)"
    by blast
  from first have f1: "f1 = \<lparr>uri = Some ?url, path = Some ?cp, contentType = Some ''image/png'',
                            size_bytes = Some 3, filename = Some ''a.png''\<rparr>"
    by (simp add: serving_from)
  from first facts f1 png_resolve [of "serving ''PNG''"] show ?thesis
    by (simp add: disk_def)
qed

lemma refused_from:
  assumes "files w ''/home/app/.cache/inferencesh/files/bfb062b2088b/a.png'' = None"
    and "files w ''/home/app/.cache/inferencesh/files/bfb062b2088b/a.png.tmp'' = None"
  shows "File_from (node refusing) (Str ''https://example.com/a.png'') w =
     Some (Inl (TransferFailed ''https://example.com/a.png'' (HttpStatus 404)),
           w\<lparr>requests := requests w @ [''https://example.com/a.png'']\<rparr>)"
proof -
  let ?url = "''https://example.com/a.png''"
  let ?cp = "''/home/app/.cache/inferencesh/files/bfb062b2088b/a.png''"
  have d: "downloadToFile (node refusing) ?url (?cp @ ''.tmp'') w =
             Some (Inl (HttpStatus 404), w\<lparr>requests := requests w @ [?url]\<rparr>)"
    by (subst downloadToFile.simps) (simp add: node_parse_png node_net refusing_def)
  have m: "\<not> existsSync (node refusing) w ?cp"
    using assms(1) by (simp add: existsSync_def png_resolve)
  have c: "cleanup (node refusing) ?url (?cp @ ''.tmp'') (HttpStatus 404)
             (w\<lparr>requests := requests w @ [?url]\<rparr>)
           = (Inl (TransferFailed ?url (HttpStatus 404)), w\<lparr>requests := requests w @ [?url]\<rparr>)"
    using assms(2) png_tmp_resolve [of refusing] by (simp add: cleanup_def unlinkSync_def)
  from downloadUrl_failed [OF node_png_cachePath m d] c show ?thesis
    by (simp add: from_url [OF png_isUrl])
qed

lemma cached_from:
  assumes "files w ''/home/app/.cache/inferencesh/files/bfb062b2088b/a.png'' = Some (Regular ''PNG'')"
  shows "File_from (node n) (Str ''https://example.com/a.png'') w =
     Some (Inr \<lparr>uri = Some ''https://example.com/a.png'',
                 path = Some ''/home/app/.cache/inferencesh/files/bfb062b2088b/a.png'',
                 contentType = Some ''image/png'', size_bytes = Some 3,
                 filename = Some ''a.png''\<rparr>, w)"
proof -
  from assms have "existsSync (node n) w ''/home/app/.cache/inferencesh/files/bfb062b2088b/a.png''"
    by (simp add: existsSync_def png_resolve)
  from downloadUrl_hit [OF node_png_cachePath this] assms show ?thesis
    by (simp add: from_url [OF png_isUrl] png_resolve File_populateMetadata_def
        existsSync_def statSync_size_def png_contentType png_filename)
qed

text \<open>
  C3 as the specification states it fails, in both directions. A locator that is in the
  cache already is resolved twice without any request, although the network would serve
  it; and a locator that the server refuses is requested by each of the two resolutions,
  neither of which finds a cache entry or returns a reference.
\<close>

theorem resolution_fetch_count_counterexample:
  "map_option
     (\<lambda>(r1, w1). (r1, requests w1,
        map_option (\<lambda>(r2, w2). (r2, requests w2))
          (File_from (node (serving ''NEW'')) (Str ''https://example.com/a.png'') w1)))
     (File_from (node (serving ''NEW'')) (Str ''https://example.com/a.png'')
        (disk [(''/home/app/.cache/inferencesh/files/bfb062b2088b/a.png'', ''PNG'')]))
   = Some (Inr \<lparr>uri = Some ''https://example.com/a.png'',
                 path = Some ''/home/app/.cache/inferencesh/files/bfb062b2088b/a.png'',
                 contentType = Some ''image/png'', size_bytes = Some 3,
                 filename = Some ''a.png''\<rparr>, [],
           Some (Inr \<lparr>uri = Some ''https://example.com/a.png'',
                 path = Some ''/home/app/.cache/inferencesh/files/bfb062b2088b/a.png'',
                 contentType = Some ''image/png'', size_bytes = Some 3,
                 filename = Some ''a.png''\<rparr>, []))
   \<and> map_option
     (\<lambda>(r1, w1). (r1, requests w1,
        map_option (\<lambda>(r2, w2). (r2, requests w2))
          (File_from (node refusing) (Str ''https://example.com/a.png'') w1)))
     (File_from (node refusing) (Str ''https://example.com/a.png'') (disk []))
   = Some (Inl (TransferFailed ''https://example.com/a.png'' (HttpStatus 404)),
           [''https://example.com/a.png''],
           Some (Inl (TransferFailed ''https://example.com/a.png'' (HttpStatus 404)),
                 [''https://example.com/a.png'', ''https://example.com/a.png'']))"
proof -
  let ?cp = "''/home/app/.cache/inferencesh/files/bfb062b2088b/a.png''"
  let ?warm = "disk [(?cp, ''PNG'')]"
  have c: "files ?warm ?cp = Some (Regular ''PNG'')"
    by (simp add: disk_def)
  have r: "requests ?warm = []"
    by (simp add: disk_def)
  have e: "files (disk []) ?cp = None" "files (disk []) (?cp @ ''.tmp'') = None"
    "requests (disk []) = []"
    by (simp_all add: disk_def)
  show ?thesis
    using e by (simp add: cached_from [OF c] r refused_from)
qed

subsection \<open>What a resolution returns\<close>

lemma populate_path [simp]: "path (File_populateMetadata e w this) = path this"
  by (simp add: File_populateMetadata_def Let_def split: sum.splits)

lemma populate_missing:
  "path this = Some p \<Longrightarrow> \<not> existsSync e w p \<Longrightarrow> File_populateMetadata e w this = this"
  by (simp add: File_populateMetadata_def)

lemma statSync_existing: "existsSync e w p \<Longrightarrow> \<exists>n. statSync_size e w p = Inr n"
  by (auto simp: statSync_size_def existsSync_def split: node.splits)

lemma populate_existing:
  assumes "path this = Some p" and "p \<noteq> []" and "existsSync e w p"
  shows "contentType (File_populateMetadata e w this) =
           (if truthy (contentType this) then contentType this else guessContentType p)"
    and "(case size_bytes this of
            Some n \<Rightarrow> size_bytes (File_populateMetadata e w this) = Some n
          | None \<Rightarrow> \<exists>n. size_bytes (File_populateMetadata e w this) = Some n
                       \<and> statSync_size e w p = Inr n)"
    and "filename (File_populateMetadata e w this) =
           (if truthy (filename this) then filename this else Some (basename p))"
  using assms statSync_existing [OF assms(3)]
  by (auto simp: File_populateMetadata_def Let_def split: sum.splits option.splits)

lemma from_success:
  assumes r: "File_from e inp w = Some (Inr f, w')" and n: "\<not> is_instance inp"
  shows "\<exists>fl. truthy (path fl)
          \<and> f = File_populateMetadata e w' (fl\<lparr>path := Some (resolve e (the (path fl)))\<rparr>)
          \<and> contentType fl = contentType (to_options inp)
          \<and> size_bytes fl = size_bytes (to_options inp)
          \<and> filename fl = filename (to_options inp)
          \<and> (truthy (uri (to_options inp)) \<and> isUrl (the (uri (to_options inp))) \<longrightarrow>
               (\<exists>target. File_getCachePath e (the (uri (to_options inp))) = Inr target
                   \<and> path fl = Some target \<and> existsSync e w' target))
          \<and> (truthy (uri (to_options inp)) \<and> \<not> isUrl (the (uri (to_options inp))) \<longrightarrow>
               path fl = Some (resolve e (the (uri (to_options inp)))))
          \<and> (\<not> truthy (uri (to_options inp)) \<longrightarrow> path fl = path (to_options inp))"
proof -
  let ?o = "to_options inp"
  from r n obtain fl where
    step: "(if truthy (uri ?o) then
             (if isUrl (the (uri ?o)) then File_downloadUrl e (the (uri ?o)) ?o w
              else Some (Inr (?o\<lparr>path := Some (resolve e (the (uri ?o)))\<rparr>), w))
           else Some (Inr ?o, w)) = Some (Inr fl, w')"
    and t: "truthy (path fl)"
    and f: "f = File_populateMetadata e w' (fl\<lparr>path := Some (resolve e (the (path fl)))\<rparr>)"
    by (cases inp)
       (auto simp: File_from_def is_instance_def Let_def
             split: if_splits option.splits sum.splits prod.splits)
  show ?thesis
  proof (cases "truthy (uri ?o) \<and> isUrl (the (uri ?o))")
    case True
    with step have dl: "File_downloadUrl e (the (uri ?o)) ?o w = Some (Inr fl, w')" by simp
    from downloadUrl_success [OF dl] obtain target where
      tg: "File_getCachePath e (the (uri ?o)) = Inr target" "fl = ?o\<lparr>path := Some target\<rparr>"
      "existsSync e w' target" by blast
    from tg have "contentType fl = contentType ?o \<and> size_bytes fl = size_bytes ?o
        \<and> filename fl = filename ?o
        \<and> (\<exists>target. File_getCachePath e (the (uri ?o)) = Inr target
                   \<and> path fl = Some target \<and> existsSync e w' target)"
      by simp
    with t f True show ?thesis by blast
  next
    case False
    with step have "(truthy (uri ?o) \<and> fl = ?o\<lparr>path := Some (resolve e (the (uri ?o)))\<rparr>)
        \<or> (\<not> truthy (uri ?o) \<and> fl = ?o)"
      by (auto split: if_splits)
    then have "contentType fl = contentType ?o \<and> size_bytes fl = size_bytes ?o
        \<and> filename fl = filename ?o
        \<and> (truthy (uri ?o) \<longrightarrow> path fl = Some (resolve e (the (uri ?o))))
        \<and> (\<not> truthy (uri ?o) \<longrightarrow> path fl = path ?o)"
      by auto
    with t f False show ?thesis by blast
  qed
qed



lemma hello_contentType: "guessContentType ''/tmp/hello.txt'' = Some ''text/plain''"
  by code_simp








text \<open>
  A directory is something that exists: the reference for its path gets a file name and
  the size the platform reports for it.
\<close>

lemma from_directory:
  "File_from (node offline) (Str ''/tmp'') ((disk [])\<lparr>files := [''/tmp'' \<mapsto> Directory]\<rparr>)
     = Some (Inr \<lparr>uri = Some ''/tmp'', path = Some ''/tmp'', contentType = None,
                   size_bytes = Some 4096, filename = Some ''tmp''\<rparr>,
             (disk [])\<lparr>files := [''/tmp'' \<mapsto> Directory]\<rparr>)"
proof -
  have r: "resolve (node offline) ''/tmp'' = ''/tmp''"
    by code_simp
  have u: "\<not> isUrl ''/tmp''"
    by (simp add: isUrl_def startsWith_def)
  have g: "guessContentType ''/tmp'' = None"
    by code_simp
  have b: "basename ''/tmp'' = ''tmp''"
    by code_simp
  have d: "dirSize (node offline) = 4096"
    by (simp add: node_def)
  show ?thesis
    by (simp add: File_from_def to_options_def u r File_populateMetadata_def existsSync_def
        statSync_size_def g b d)
qed

subsection \<open>The two spellings of the content type\<close>

text \<open>
  C10, as the code has it. When a descriptor carries \<^verbatim>\<open>content_type\<close>, \<^verbatim>\<open>File.from\<close> does
  not look at \<^verbatim>\<open>contentType\<close> at all: any other camel-case value gives the same result.
  A \<^verbatim>\<open>content_type\<close> that is not empty is the content type of the reference returned. An
  empty one is taken by the metadata step for no content type: where something exists at
  the reference's path the content type is the one inferred from the path, and where
  nothing exists it stays empty. When \<^verbatim>\<open>content_type\<close> is absent the camel-case value is
  used, in the same way.
\<close>

theorem content_type_precedence:
  "(content_type d = Some c \<longrightarrow>
      File_from e (Data (d\<lparr>contentType := other\<rparr>)) w = File_from e (Data d) w)
   \<and> (File_from e (Data d) w = Some (Inr f, w') \<longrightarrow>
        (\<exists>p. path f = Some p
           \<and> (case content_type d of
                 Some c \<Rightarrow>
                   contentType f =
                     (if c \<noteq> [] then Some c
                      else if existsSync e w' p then guessContentType p else Some [])
               | None \<Rightarrow>
                   contentType f =
                     (if truthy (contentType d) then contentType d
                      else if existsSync e w' p then guessContentType p else contentType d))))"
proof -
  have a: "File_from e (Data (d\<lparr>contentType := other\<rparr>)) w = File_from e (Data d) w"
    if "content_type d = Some c"
    using that by (simp add: File_from_def to_options_def)
  have b: "\<exists>p. path f = Some p
           \<and> (case content_type d of
                 Some c \<Rightarrow>
                   contentType f =
                     (if c \<noteq> [] then Some c
                      else if existsSync e w' p then guessContentType p else Some [])
               | None \<Rightarrow>
                   contentType f =
                     (if truthy (contentType d) then contentType d
                      else if existsSync e w' p then guessContentType p else contentType d))"
    if r: "File_from e (Data d) w = Some (Inr f, w')"
  proof -
    have n: "\<not> is_instance (Data d)" by (simp add: is_instance_def)
    let ?ct = "contentType (to_options (Data d))"
    from from_success [OF r n] obtain fl where
      f: "f = File_populateMetadata e w' (fl\<lparr>path := Some (resolve e (the (path fl)))\<rparr>)"
      and m: "contentType fl = ?ct"
      by blast
    let ?p = "resolve e (the (path fl))"
    let ?file = "fl\<lparr>path := Some ?p\<rparr>"
    have p: "path f = Some ?p" using f by simp
    have v: "contentType f =
               (if truthy ?ct then ?ct else if existsSync e w' ?p then guessContentType ?p else ?ct)"
    proof (cases "existsSync e w' ?p")
      case True
      from populate_existing(1) [of ?file ?p e w'] True m show ?thesis
        unfolding f by simp
    next
      case False
      from populate_missing [of ?file ?p e w'] False m show ?thesis
        unfolding f by simp
    qed
    have "case content_type d of
                 Some c \<Rightarrow>
                   contentType f =
                     (if c \<noteq> [] then Some c
                      else if existsSync e w' ?p then guessContentType ?p else Some [])
               | None \<Rightarrow>
                   contentType f =
                     (if truthy (contentType d) then contentType d
                      else if existsSync e w' ?p then guessContentType ?p else contentType d)"
      using v by (cases "content_type d") (simp_all add: to_options_def)
    with p show ?thesis by blast
  qed
  from a b show ?thesis by blast
qed

theorem content_type_precedence_witness:
  "File_from (node offline)
     (Data \<lparr>uri = None, path = Some ''/tmp/hello.txt'', contentType = Some ''text/plain'',
            size_bytes = None, filename = None, content_type = Some ''application/octet-stream''\<rparr>)
     (disk [(''/tmp/hello.txt'', ''hello world'')])
   = Some (Inr \<lparr>uri = None, path = Some ''/tmp/hello.txt'',
                 contentType = Some ''application/octet-stream'',
                 size_bytes = Some 11, filename = Some ''hello.txt''\<rparr>,
           disk [(''/tmp/hello.txt'', ''hello world'')])
   \<and> File_from (node offline)
     (Data \<lparr>uri = None, path = Some ''/tmp/hello.txt'', contentType = Some ''image/gif'',
            size_bytes = None, filename = None, content_type = Some ''application/octet-stream''\<rparr>)
     (disk [(''/tmp/hello.txt'', ''hello world'')])
   = Some (Inr \<lparr>uri = None, path = Some ''/tmp/hello.txt'',
                 contentType = Some ''application/octet-stream'',
                 size_bytes = Some 11, filename = Some ''hello.txt''\<rparr>,
           disk [(''/tmp/hello.txt'', ''hello world'')])"
proof -
  have run: "File_from (node offline)
     (Data \<lparr>uri = None, path = Some ''/tmp/hello.txt'', contentType = Some ''text/plain'',
            size_bytes = None, filename = None, content_type = Some ''application/octet-stream''\<rparr>)
     (disk [(''/tmp/hello.txt'', ''hello world'')])
   = Some (Inr \<lparr>uri = None, path = Some ''/tmp/hello.txt'',
                 contentType = Some ''application/octet-stream'',
                 size_bytes = Some 11, filename = Some ''hello.txt''\<rparr>,
           disk [(''/tmp/hello.txt'', ''hello world'')])"
    by (simp add: File_from_def to_options_def File_populateMetadata_def existsSync_def
        statSync_size_def disk_def resolve_hello basename_hello)
  show ?thesis
    using run content_type_precedence
      [where d = "\<lparr>uri = None, path = Some ''/tmp/hello.txt'', contentType = Some ''text/plain'',
            size_bytes = None, filename = None, content_type = Some ''application/octet-stream''\<rparr>"
         and c = "''application/octet-stream''" and e = "node offline"
         and other = "Some ''image/gif''"
         and w = "disk [(''/tmp/hello.txt'', ''hello world'')]"]
    by simp
qed

text \<open>
  C10 as the specification states it fails: a descriptor for an existing file with an
  empty \<^verbatim>\<open>content_type\<close> (and a \<^verbatim>\<open>contentType\<close>) gets neither of the two values but the
  content type inferred from the path.
\<close>

theorem content_type_empty_counterexample:
  "File_from (node offline)
     (Data \<lparr>uri = None, path = Some ''/tmp/hello.txt'', contentType = Some ''image/gif'',
            size_bytes = None, filename = None, content_type = Some []\<rparr>)
     (disk [(''/tmp/hello.txt'', ''hello world'')])
   = Some (Inr \<lparr>uri = None, path = Some ''/tmp/hello.txt'',
                 contentType = Some ''text/plain'',
                 size_bytes = Some 11, filename = Some ''hello.txt''\<rparr>,
           disk [(''/tmp/hello.txt'', ''hello world'')])"
  by (simp add: File_from_def to_options_def File_populateMetadata_def existsSync_def
      statSync_size_def disk_def resolve_hello basename_hello hello_contentType)

subsection \<open>The download utility\<close>

lemma download_unfold:
  "parseURL e url = Some u \<Longrightarrow>
   download e url directory w =
     (if existsSync e w (download_target e u directory) \<and> directory \<noteq> StorageDir_TEMP
      then Some (Inr (download_target e u directory), w)
      else
        (case File_from e (Str url) w of
           None \<Rightarrow> None
         | Some (Inl err, w1) \<Rightarrow> Some (Inl err, w1)
         | Some (Inr fl, w1) \<Rightarrow>
             if truthy (path fl) then
               (case copyFileSync e (the (path fl)) (download_target e u directory) w1 of
                  Inl err \<Rightarrow> Some (Inl err, w1)
                | Inr w2 \<Rightarrow> Some (Inr (download_target e u directory), w2))
             else Some (Inl (DownloadFailed url), w1)))"
proof -
  assume p: "parseURL e url = Some u"
  have k: "take 12 (sha256_hex e (if search u \<noteq> [] then (host u @ pathname u) @ search u
                                  else host u @ pathname u)) = cacheKey e u"
    by (simp add: cacheKey_def)
  have n: "(if basename (pathname u) \<noteq> [] then basename (pathname u) else ''download'')
           = cacheFilename u"
    by (simp add: cacheFilename_def)
  show ?thesis
    unfolding download_def Let_def mkdirSync_def download_target_def p option.case k n
    by (rule refl)
qed

lemma copyFileSync_requests: "copyFileSync e src dest w = Inr w2 \<Longrightarrow> requests w2 = requests w"
  by (auto simp: copyFileSync_def split: option.splits node.splits)

lemma download_requests:
  assumes "parseURL e url = Some u" and "download e url StorageDir_TEMP w = Some (r, w')"
  shows "\<exists>r1 w1. File_from e (Str url) w = Some (r1, w1) \<and> requests w' = requests w1"
  using assms
  by (auto simp: download_unfold copyFileSync_requests
      split: option.splits sum.splits if_splits prod.splits)

lemma from_url_world:
  assumes "isUrl url" and "File_from e (Str url) w = Some (r, w1)"
  shows "\<exists>r0. File_downloadUrl e url
            \<lparr>uri = Some url, path = None, contentType = None, size_bytes = None, filename = None\<rparr> w
          = Some (r0, w1)"
  using assms
  by (auto simp: from_url split: option.splits sum.splits if_splits prod.splits)

lemma downloadUrl_miss_requests:
  assumes c: "File_getCachePath e url = Inr target" and m: "\<not> existsSync e w target"
    and p: "parseURL e url = Some parsed" "protocol parsed = ''https:'' \<or> protocol parsed = ''http:''"
    and r: "File_downloadUrl e url this w = Some (r0, w1)"
  shows "\<exists>rs. requests w1 = requests w @ url # rs"
proof -
  from c m r obtain r1 wd where d: "downloadToFile e url (target @ ''.tmp'') w = Some (r1, wd)"
    by (cases "downloadToFile e url (target @ ''.tmp'') w") (auto simp: File_downloadUrl_def)
  from downloadToFile_requests_first [OF d p] obtain rs where
    rs: "requests wd = requests w @ url # rs" by auto
  have "requests w1 = requests wd"
  proof (cases r1)
    case (Inl err)
    with c m d r have "(r0, w1) = cleanup e url (target @ ''.tmp'') err wd"
      by (simp add: downloadUrl_failed)
    from cleanup_world [OF this [symmetric]] show ?thesis by simp
  next
    case (Inr x)
    with d have "downloadToFile e url (target @ ''.tmp'') w = Some (Inr (), wd)" by simp
    from downloadUrl_fetched [OF c m this, of this] r show ?thesis by auto
  qed
  with rs show ?thesis by simp
qed

lemma png_tmp_target:
  "download_target (node n)
     \<lparr>protocol = ''https:'', host = ''example.com'', pathname = ''/a.png'', search = [], hash = []\<rparr>
     StorageDir_TEMP = ''/app/tmp/bfb062b2088b/a.png''"
  by code_simp

text \<open>
  C1, as the code has it. With a directory other than \<^verbatim>\<open>TEMP\<close>, \<^verbatim>\<open>download\<close> returns
  the target path at once when a file exists there, leaving the world as it is. With
  \<^verbatim>\<open>TEMP\<close> it never looks at the target: it resolves the URL with \<^verbatim>\<open>File.from\<close> and copies
  the resolved file over the target. That resolution fetches when the URL is not in the
  cache of \<^verbatim>\<open>File\<close>, and makes no request when it is.
\<close>

theorem download_ephemeral_uses_file_cache:
  assumes p: "parseURL e url = Some u"
  shows "(directory \<noteq> StorageDir_TEMP \<and> existsSync e w (download_target e u directory) \<longrightarrow>
            download e url directory w = Some (Inr (download_target e u directory), w))
       \<and> download e url StorageDir_TEMP w =
           (case File_from e (Str url) w of
              None \<Rightarrow> None
            | Some (Inl err, w1) \<Rightarrow> Some (Inl err, w1)
            | Some (Inr fl, w1) \<Rightarrow>
                if truthy (path fl) then
                  (case copyFileSync e (the (path fl)) (download_target e u StorageDir_TEMP) w1 of
                     Inl err \<Rightarrow> Some (Inl err, w1)
                   | Inr w2 \<Rightarrow> Some (Inr (download_target e u StorageDir_TEMP), w2))
                else Some (Inl (DownloadFailed url), w1))
       \<and> (\<forall>target r w'. isUrl url \<and> (protocol u = ''https:'' \<or> protocol u = ''http:'')
              \<and> File_getCachePath e url = Inr target \<and> \<not> existsSync e w target
              \<and> download e url StorageDir_TEMP w = Some (r, w') \<longrightarrow>
              (\<exists>rs. requests w' = requests w @ url # rs))
       \<and> (\<forall>target. isUrl url \<and> File_getCachePath e url = Inr target \<and> existsSync e w target \<longrightarrow>
              (\<exists>r w'. download e url StorageDir_TEMP w = Some (r, w') \<and> requests w' = requests w))"
proof -
  have a: "download e url directory w = Some (Inr (download_target e u directory), w)"
    if "directory \<noteq> StorageDir_TEMP" "existsSync e w (download_target e u directory)"
    using that p by (simp add: download_unfold)
  have b: "download e url StorageDir_TEMP w =
           (case File_from e (Str url) w of
              None \<Rightarrow> None
            | Some (Inl err, w1) \<Rightarrow> Some (Inl err, w1)
            | Some (Inr fl, w1) \<Rightarrow>
                if truthy (path fl) then
                  (case copyFileSync e (the (path fl)) (download_target e u StorageDir_TEMP) w1 of
                     Inl err \<Rightarrow> Some (Inl err, w1)
                   | Inr w2 \<Rightarrow> Some (Inr (download_target e u StorageDir_TEMP), w2))
                else Some (Inl (DownloadFailed url), w1))"
    using p by (simp add: download_unfold)
  have c: "\<exists>rs. requests w' = requests w @ url # rs"
    if "isUrl url" "protocol u = ''https:'' \<or> protocol u = ''http:''"
      "File_getCachePath e url = Inr target" "\<not> existsSync e w target"
      "download e url StorageDir_TEMP w = Some (r, w')" for target r w'
  proof -
    from download_requests [OF p that(5)] obtain r1 w1 where
      f: "File_from e (Str url) w = Some (r1, w1)" and rq: "requests w' = requests w1" by blast
    from from_url_world [OF that(1) f] obtain r0 where
      "File_downloadUrl e url
         \<lparr>uri = Some url, path = None, contentType = None, size_bytes = None, filename = None\<rparr> w
       = Some (r0, w1)" by blast
    from downloadUrl_miss_requests [OF that(3,4) p that(2) this] rq show ?thesis by simp
  qed
  have d: "\<exists>r w'. download e url StorageDir_TEMP w = Some (r, w') \<and> requests w' = requests w"
    if "isUrl url" "File_getCachePath e url = Inr target" "existsSync e w target" for target
  proof -
    let ?o = "\<lparr>uri = Some url, path = None, contentType = None, size_bytes = None,
               filename = None\<rparr>"
    from downloadUrl_hit [OF that(2,3)]
    have "File_downloadUrl e url ?o w = Some (Inr (?o\<lparr>path := Some target\<rparr>), w)" .
    with that(1) getCachePath_nonempty [OF that(2)]
    have fr: "File_from e (Str url) w =
        Some (Inr (File_populateMetadata e w (?o\<lparr>path := Some (resolve e target)\<rparr>)), w)"
      by (simp add: from_url)
    show ?thesis
    proof (cases "copyFileSync e (resolve e target) (download_target e u StorageDir_TEMP) w")
      case (Inl err)
      with fr have "download e url StorageDir_TEMP w = Some (Inl err, w)"
        by (simp add: b)
      then show ?thesis by simp
    next
      case (Inr w2)
      with fr have "download e url StorageDir_TEMP w =
          Some (Inr (download_target e u StorageDir_TEMP), w2)"
        by (simp add: b)
      with copyFileSync_requests [OF Inr] show ?thesis by simp
    qed
  qed
  from a b c d show ?thesis by blast
qed

lemma png_tmp_target_resolve:
  "resolve (node n) ''/app/tmp/bfb062b2088b/a.png'' = ''/app/tmp/bfb062b2088b/a.png''"
  by code_simp

theorem download_ephemeral_uses_file_cache_witness:
  "map_option (\<lambda>(r, w'). (r, requests w', files w' ''/app/tmp/bfb062b2088b/a.png''))
     (download (node (serving ''PNG'')) ''https://example.com/a.png'' StorageDir_TEMP
        (disk [(''/app/tmp/bfb062b2088b/a.png'', ''old'')]))
   = Some (Inr ''/app/tmp/bfb062b2088b/a.png'', [''https://example.com/a.png''],
           Some (Regular ''PNG''))"
proof -
  let ?e = "node (serving ''PNG'')"
  let ?w = "disk [(''/app/tmp/bfb062b2088b/a.png'', ''old'')]"
  let ?cp = "''/home/app/.cache/inferencesh/files/bfb062b2088b/a.png''"
  let ?url = "''https://example.com/a.png''"
  let ?wd = "pipe (?cp @ ''.tmp'') [] ''PNG''
               (writeFs ((files ?w)(?cp @ ''.tmp'' \<mapsto> Regular []))
                  (?w\<lparr>requests := requests ?w @ [?url]\<rparr>))"
  let ?w1 = "writeFs (((files ?wd)(?cp @ ''.tmp'' := None))(?cp \<mapsto> Regular ''PNG'')) ?wd"
  have miss: "\<not> existsSync ?e ?w ?cp"
    by (simp add: existsSync_def disk_def png_resolve)
  have nd: "files ?w (resolve ?e (?cp @ ''.tmp'')) \<noteq> Some Directory"
    by (simp add: disk_def)
  have dl: "File_downloadUrl ?e ?url this ?w = Some (Inr (this\<lparr>path := Some ?cp\<rparr>), ?w1)" for this
    using miss serving_download [OF nd]
    by (simp add: File_downloadUrl_def node_png_cachePath png_resolve png_tmp_resolve)
       (simp add: renameSync_def pipe_files png_resolve png_tmp_resolve disk_def)
  have fr: "File_from ?e (Str ?url) ?w =
     Some (Inr \<lparr>uri = Some ?url, path = Some ?cp, contentType = Some ''image/png'',
                 size_bytes = Some 3, filename = Some ''a.png''\<rparr>, ?w1)"
    by (simp add: from_url [OF png_isUrl] dl png_resolve File_populateMetadata_def
        existsSync_def statSync_size_def png_contentType png_filename)
  have run: "download ?e ?url StorageDir_TEMP ?w =
     Some (Inr ''/app/tmp/bfb062b2088b/a.png'',
           writeFs ((files ?w1)(''/app/tmp/bfb062b2088b/a.png'' \<mapsto> Regular ''PNG'')) ?w1)"
    by (simp add: download_unfold [OF node_parse_png] png_tmp_target fr copyFileSync_def
        png_resolve png_tmp_target_resolve)
       (simp add: pipe_files disk_def png_tmp_target png_tmp_target_resolve)
  have cp: "File_getCachePath ?e ?url = Inr ?cp"
    by (rule node_png_cachePath)
  from download_ephemeral_uses_file_cache
      [OF node_parse_png [of "serving ''PNG''"], where directory = StorageDir_TEMP and w = ?w]
    png_isUrl cp miss run
  have "\<exists>rs. requests (writeFs ((files ?w1)(''/app/tmp/bfb062b2088b/a.png'' \<mapsto> Regular ''PNG'')) ?w1)
          = requests ?w @ ?url # rs"
    by simp
  with run show ?thesis
    by (simp add: disk_def)
qed

text \<open>
  C1 as the specification states it fails: with a file at the target path under \<^verbatim>\<open>TEMP\<close> and the
  URL in the cache of \<^verbatim>\<open>File\<close>, \<^verbatim>\<open>download\<close> makes no request, although the network
  would serve other bytes; the target gets the cached copy.
\<close>

theorem download_ephemeral_refetch_counterexample:
  "existsSync (node (serving ''NEW''))
     (disk [(''/home/app/.cache/inferencesh/files/bfb062b2088b/a.png'', ''PNG''),
            (''/app/tmp/bfb062b2088b/a.png'', ''old'')])
     ''/app/tmp/bfb062b2088b/a.png''
   \<and> map_option (\<lambda>(r, w'). (r, requests w', files w' ''/app/tmp/bfb062b2088b/a.png''))
        (download (node (serving ''NEW'')) ''https://example.com/a.png'' StorageDir_TEMP
           (disk [(''/home/app/.cache/inferencesh/files/bfb062b2088b/a.png'', ''PNG''),
                  (''/app/tmp/bfb062b2088b/a.png'', ''old'')]))
     = Some (Inr ''/app/tmp/bfb062b2088b/a.png'', [], Some (Regular ''PNG''))"
proof -
  let ?w = "disk [(''/home/app/.cache/inferencesh/files/bfb062b2088b/a.png'', ''PNG''),
                  (''/app/tmp/bfb062b2088b/a.png'', ''old'')]"
  have c: "files ?w ''/home/app/.cache/inferencesh/files/bfb062b2088b/a.png'' = Some (Regular ''PNG'')"
    by (simp add: disk_def)
  have t: "files ?w ''/app/tmp/bfb062b2088b/a.png'' = Some (Regular ''old'')"
    by (simp add: disk_def)
  have r: "requests ?w = []"
    by (simp add: disk_def)
  have x: "existsSync (node (serving ''NEW'')) ?w ''/app/tmp/bfb062b2088b/a.png''"
    by (simp add: existsSync_def png_tmp_target_resolve t)
  show ?thesis
    using x
    by (simp add: download_unfold [OF node_parse_png] png_tmp_target cached_from [OF c]
        copyFileSync_def c t r png_resolve png_tmp_target_resolve)
qed

end
